(* ===== verification/Relay_Prelude.thy ===== *)
theory Relay_Prelude
  imports Main "HOL-Library.Word" "HOL-Library.Monad_Syntax"
begin

text \<open>
  Shared vocabulary of the development.

  \<^item> The types of the wire format: a byte is an \<open>8 word\<close>, a Go byte slice a list of bytes.
    A nil slice and an empty slice are both \<open>[]\<close>: the program only ever tests \<open>== nil\<close> on
    slices that are nil exactly when they are empty.
  \<^item> The run-time checks of Go: reading an index, taking a sub-slice, writing an index and
    copying into a sub-slice give \<open>None\<close> where Go panics. A function of the model that
    reads or writes packet bytes has an \<open>option\<close> result, and \<open>None\<close> means that the
    goroutine panics (and the daemon dies).
  \<^item> Loops over lists: \<open>fold\<close> for loops that cannot panic, \<open>fold_opt\<close> for loops that can.
  \<^item> The \<open>named_theorems\<close> collections the component theories fill.
\<close>

unbundle bit_operations_syntax

type_synonym byte = "8 word"
type_synonym bytes = "byte list"

named_theorems wire_simps \<open>equations about packet bytes and option areas\<close>
named_theorems frame_simps \<open>state fields an operation leaves alone\<close>
named_theorems trace_simps \<open>the calls an operation issues\<close>

section \<open>Go slices with their run-time checks\<close>

definition idx :: "'a list \<Rightarrow> nat \<Rightarrow> 'a option" where
  "idx xs i = (if i < length xs then Some (xs ! i) else None)"

definition slc :: "'a list \<Rightarrow> nat \<Rightarrow> nat \<Rightarrow> 'a list option" where
  "slc xs a b = (if a \<le> b \<and> b \<le> length xs then Some (take (b - a) (drop a xs)) else None)"

definition upd :: "'a list \<Rightarrow> nat \<Rightarrow> 'a \<Rightarrow> 'a list option" where
  "upd xs i v = (if i < length xs then Some (xs[i := v]) else None)"

definition put :: "'a list \<Rightarrow> nat \<Rightarrow> nat \<Rightarrow> 'a list \<Rightarrow> 'a list option" where
  \<comment> \<open>\<open>copy(xs[a:b], src)\<close>: copies the shorter of the two lengths\<close>
  "put xs a b src = (if a \<le> b \<and> b \<le> length xs
     then Some (take a xs @ take (b - a) src @ drop (a + min (b - a) (length src)) xs)
     else None)"

lemma idx_Some [simp]: "i < length xs \<Longrightarrow> idx xs i = Some (xs ! i)"
  by (simp add: idx_def)

lemma idx_None [simp]: "length xs \<le> i \<Longrightarrow> idx xs i = None"
  by (simp add: idx_def)

lemma slc_Some [simp]:
  "a \<le> b \<Longrightarrow> b \<le> length xs \<Longrightarrow> slc xs a b = Some (take (b - a) (drop a xs))"
  by (simp add: slc_def)

lemma upd_Some [simp]: "i < length xs \<Longrightarrow> upd xs i v = Some (xs[i := v])"
  by (simp add: upd_def)

lemma put_Some [simp]:
  "a \<le> b \<Longrightarrow> b \<le> length xs \<Longrightarrow> length src = b - a \<Longrightarrow>
   put xs a b src = Some (take a xs @ src @ drop b xs)"
  by (simp add: put_def)

lemma put_length: "put xs a b src = Some ys \<Longrightarrow> length ys = length xs"
  by (auto simp: put_def split: if_splits)

lemma drop_eq_ConsD:
  "drop i xs = y # ys \<Longrightarrow> i < length xs \<and> xs ! i = y \<and> drop (Suc i) xs = ys"
  by (metis Cons_nth_drop_Suc drop_eq_Nil linorder_not_less list.discI list.inject)

lemma drop_eq_appendD:
  "drop i xs = ys @ zs \<Longrightarrow> i \<le> length xs \<Longrightarrow>
   i + length ys \<le> length xs \<and> drop (i + length ys) xs = zs \<and> take (length ys) (drop i xs) = ys"
  by (metis add.commute append_eq_conv_conj drop_drop length_append length_drop
      le_add1 le_diff_conv2)

section \<open>Loops that can panic\<close>

fun fold_opt :: "('a \<Rightarrow> 's \<Rightarrow> 's option) \<Rightarrow> 'a list \<Rightarrow> 's \<Rightarrow> 's option" where
  "fold_opt f [] s = Some s"
| "fold_opt f (x # xs) s = Option.bind (f x s) (fold_opt f xs)"

lemma fold_opt_append:
  "fold_opt f (xs @ ys) s = Option.bind (fold_opt f xs s) (fold_opt f ys)"
  by (induction xs arbitrary: s) (auto split: Option.bind_splits)

lemma fold_opt_cong [fundef_cong]:
  "xs = ys \<Longrightarrow> s = t \<Longrightarrow> (\<And>x u. x \<in> set ys \<Longrightarrow> f x u = g x u) \<Longrightarrow>
   fold_opt f xs s = fold_opt g ys t"
  by (induction xs arbitrary: ys s t) (auto cong: bind_option_cong)

text \<open>
  The contract of a loop body: it keeps an invariant and does not panic under it. The
  loop then does not panic either and keeps the invariant.
\<close>

locale loop_body =
  fixes body :: "'a \<Rightarrow> 's \<Rightarrow> 's option"
    and good :: "'a \<Rightarrow> bool"
    and I :: "'s \<Rightarrow> bool"
  assumes body_ok: "good x \<Longrightarrow> I s \<Longrightarrow> \<exists>t. body x s = Some t \<and> I t"
begin

lemma loop_ok: "list_all good xs \<Longrightarrow> I s \<Longrightarrow> \<exists>t. fold_opt body xs s = Some t \<and> I t"
proof (induction xs arbitrary: s)
  case Nil
  then show ?case by simp
next
  case (Cons x xs)
  from Cons.prems obtain u where "body x s = Some u" and "I u"
    using body_ok [of x s] by auto
  with Cons show ?case by simp
qed

end

lemma fold_invariant:
  "(\<And>x s. x \<in> set xs \<Longrightarrow> I s \<Longrightarrow> I (f x s)) \<Longrightarrow> I s \<Longrightarrow> I (fold f xs s)"
  by (induction xs arbitrary: s) auto

lemma fold_frame:
  "(\<And>x s. x \<in> set xs \<Longrightarrow> p (f x s) = p s) \<Longrightarrow> p (fold f xs s) = p s"
  by (induction xs arbitrary: s) auto

end
