(* ===== verification/Netip.thy ===== *)
theory Netip
  imports Relay_Prelude
begin

text \<open>
  The part of Go's \<open>net/netip\<close> and \<open>net\<close> the program uses: the address type with its zero
  value, IPv4 and IPv6 addresses, \<open>AddrFromSlice\<close>, \<open>AsSlice\<close>, \<open>As4\<close> (which panics on an
  address that is not IPv4), the classification predicates, \<open>net.IP.To4\<close>,
  \<open>net.IPMask.Size\<close> and \<open>net.CIDRMask\<close>. These are standard-library functions, modelled after
  their documentation, and have no entry in the source map; \<open>Broadcast\<close> is the program's own
  \<open>broadcastAddr\<close> (\<open>internal/relay/rawsock.go\<close>).
\<close>

datatype Addr = ZeroAddr | Addr4 byte byte byte byte | Addr6 bytes

definition v4_in_v6_prefix :: bytes where
  "v4_in_v6_prefix = [0, 0, 0, 0, 0, 0, 0, 0, 0, 0, 255, 255]"

fun AddrFromSlice :: "bytes \<Rightarrow> Addr \<times> bool" where
  "AddrFromSlice [a, b, c, d] = (Addr4 a b c d, True)"
| "AddrFromSlice xs = (if length xs = 16 then (Addr6 xs, True) else (ZeroAddr, False))"

fun AsSlice :: "Addr \<Rightarrow> bytes" where
  "AsSlice ZeroAddr = []"
| "AsSlice (Addr4 a b c d) = [a, b, c, d]"
| "AsSlice (Addr6 xs) = xs"

fun Is4 :: "Addr \<Rightarrow> bool" where
  "Is4 (Addr4 a b c d) = True"
| "Is4 _ = False"

fun Unmap :: "Addr \<Rightarrow> Addr" where
  "Unmap (Addr6 xs) = (if take 12 xs = v4_in_v6_prefix then fst (AddrFromSlice (drop 12 xs))
                       else Addr6 xs)"
| "Unmap a = a"

definition As4 :: "Addr \<Rightarrow> bytes option" where
  \<comment> \<open>panics on the zero address and on IPv6 addresses that do not embed an IPv4 one\<close>
  "As4 a = (case Unmap a of Addr4 b0 b1 b2 b3 \<Rightarrow> Some [b0, b1, b2, b3] | _ \<Rightarrow> None)"

definition IsUnspecified :: "Addr \<Rightarrow> bool" where
  "IsUnspecified a \<longleftrightarrow> a = Addr4 0 0 0 0 \<or> a = Addr6 (replicate 16 0)"

definition IsLoopback :: "Addr \<Rightarrow> bool" where
  "IsLoopback a = (case Unmap a of Addr4 b0 _ _ _ \<Rightarrow> b0 = 127
     | Addr6 xs \<Rightarrow> xs = replicate 15 0 @ [1] | ZeroAddr \<Rightarrow> False)"

definition IsMulticast :: "Addr \<Rightarrow> bool" where
  "IsMulticast a = (case Unmap a of Addr4 b0 _ _ _ \<Rightarrow> b0 AND 0xf0 = 0xe0
     | Addr6 xs \<Rightarrow> take 1 xs = [0xff] | ZeroAddr \<Rightarrow> False)"

definition IsLinkLocalUnicast :: "Addr \<Rightarrow> bool" where
  "IsLinkLocalUnicast a = (case Unmap a of Addr4 b0 b1 _ _ \<Rightarrow> b0 = 169 \<and> b1 = 254
     | Addr6 xs \<Rightarrow> (case xs of x # y # _ \<Rightarrow> x = 0xfe \<and> y AND 0xc0 = 0x80 | _ \<Rightarrow> False)
     | ZeroAddr \<Rightarrow> False)"

definition To4 :: "bytes \<Rightarrow> bytes" where
  \<comment> \<open>\<open>net.IP.To4\<close>: nil (here \<open>[]\<close>) for anything that is not an IPv4 address\<close>
  "To4 ip = (if length ip = 4 then ip
             else if length ip = 16 \<and> take 12 ip = v4_in_v6_prefix then drop 12 ip else [])"

definition leading_ones :: "byte \<Rightarrow> nat option" where
  "leading_ones v = map_of [(0xff, 8), (0xfe, 7), (0xfc, 6), (0xf8, 5), (0xf0, 4), (0xe0, 3),
     (0xc0, 2), (0x80, 1), (0, 0)] v"

fun simpleMaskLength :: "bytes \<Rightarrow> nat option" where
  "simpleMaskLength [] = Some 0"
| "simpleMaskLength (v # vs) =
     (if v = 0xff then map_option ((+) 8) (simpleMaskLength vs)
      else if list_all (\<lambda>b. b = 0) vs then leading_ones v else None)"

definition MaskSize :: "bytes \<Rightarrow> nat \<times> nat" where
  "MaskSize m = (case simpleMaskLength m of Some n \<Rightarrow> (n, 8 * length m) | None \<Rightarrow> (0, 0))"

definition CIDRMask32 :: bytes where
  \<comment> \<open>\<open>net.CIDRMask(32, 32)\<close>\<close>
  "CIDRMask32 = [255, 255, 255, 255]"

definition Broadcast :: Addr where
  \<comment> \<open>\<open>netip.MustParseAddr("255.255.255.255")\<close>\<close>
  "Broadcast = Addr4 255 255 255 255"

section \<open>Facts about IPv4 addresses\<close>

lemma AddrFromSlice_4:
  "length xs = 4 \<Longrightarrow> AddrFromSlice xs = (Addr4 (xs ! 0) (xs ! 1) (xs ! 2) (xs ! 3), True)"
  by (auto simp: length_Suc_conv eval_nat_numeral)

lemma AddrFromSlice_AsSlice: "Is4 a \<Longrightarrow> AddrFromSlice (AsSlice a) = (a, True)"
  by (cases a) auto

lemma length_AsSlice_Is4: "Is4 a \<Longrightarrow> length (AsSlice a) = 4"
  by (cases a) auto

lemma As4_Is4: "Is4 a \<Longrightarrow> As4 a = Some (AsSlice a)"
  by (cases a) (auto simp: As4_def)

lemma Is4_iff: "Is4 a \<longleftrightarrow> (\<exists>b0 b1 b2 b3. a = Addr4 b0 b1 b2 b3)"
  by (cases a) auto

lemma Is4_Broadcast [simp]: "Is4 Broadcast"
  by (simp add: Broadcast_def)

lemma AsSlice_inj_Is4: "Is4 a \<Longrightarrow> Is4 b \<Longrightarrow> AsSlice a = AsSlice b \<longleftrightarrow> a = b"
  by (auto simp: Is4_iff)

lemma length_To4: "length (To4 ip) = 4 \<or> To4 ip = []"
  by (auto simp: To4_def)

lemma AddrFromSlice_To4: "AddrFromSlice (To4 ip) = (a, True) \<Longrightarrow> Is4 a"
  using length_To4 [of ip] by (auto simp: AddrFromSlice_4)

lemma MaskSize_CIDRMask32: "MaskSize CIDRMask32 = (32, 32)"
  by (simp add: MaskSize_def CIDRMask32_def)

end
