(* ===== verification/Kernel_Calls.thy ===== *)
theory Kernel_Calls
  imports Netip
begin

text \<open>
  The boundary to the kernel. The program talks to it through \<open>golang.org/x/sys/unix\<close>,
  \<open>github.com/vishvananda/netlink\<close>, \<open>os.ReadFile\<close> and \<open>os.WriteFile\<close>; none of these is part
  of the repository. Each use is a value of type \<open>call\<close>, recorded in the order the program
  issues them, and what a call returns is given by a parameter of type \<open>env\<close>: a family of
  functions of the calls issued so far (so the answers may depend on everything the program did)
  and of the call itself. Nothing is assumed about the answers. Results are proved about the
  calls the program issues, for every \<open>env\<close>.

  The values of the constants are those of the Linux ABI.
\<close>

definition AF_INET :: int where [simp]: "AF_INET = 2"
definition NUD_REACHABLE :: int where [simp]: "NUD_REACHABLE = 0x02"
definition NUD_STALE :: int where [simp]: "NUD_STALE = 0x04"
definition NUD_DELAY :: int where [simp]: "NUD_DELAY = 0x08"
definition NUD_PROBE :: int where [simp]: "NUD_PROBE = 0x10"
definition NUD_FAILED :: int where [simp]: "NUD_FAILED = 0x20"
definition NUD_NOARP :: int where [simp]: "NUD_NOARP = 0x40"
definition NUD_PERMANENT :: int where [simp]: "NUD_PERMANENT = 0x80"
definition NTF_PROXY :: int where [simp]: "NTF_PROXY = 0x08"
definition IFF_RUNNING :: int where [simp]: "IFF_RUNNING = 0x40"
definition IFA_F_TENTATIVE :: int where [simp]: "IFA_F_TENTATIVE = 0x40"
definition RTM_DELLINK :: int where [simp]: "RTM_DELLINK = 17"
definition RTM_DELROUTE :: int where [simp]: "RTM_DELROUTE = 25"
definition RTM_NEWNEIGH :: int where [simp]: "RTM_NEWNEIGH = 28"
definition RT_TABLE_MAIN :: int where [simp]: "RT_TABLE_MAIN = 254"
definition SCOPE_LINK :: int where [simp]: "SCOPE_LINK = 253"
definition RTPROT_STATIC :: int where [simp]: "RTPROT_STATIC = 4"
definition SOL_SOCKET :: int where [simp]: "SOL_SOCKET = 1"
definition SO_REUSEADDR :: int where [simp]: "SO_REUSEADDR = 2"
definition SO_BROADCAST :: int where [simp]: "SO_BROADCAST = 6"
definition SO_REUSEPORT :: int where [simp]: "SO_REUSEPORT = 15"

datatype errno = ENOENT | ESRCH | EINTR | Errno nat

text \<open>The structures of the netlink library the program fills in or reads.\<close>

record Neigh =
  n_LinkIndex :: int
  n_Family :: int
  n_State :: int
  n_Flags :: int
  n_IP :: bytes
  n_HardwareAddr :: bytes

record IPNet =
  net_IP :: bytes
  net_Mask :: bytes

record Route =
  r_LinkIndex :: int
  r_Dst :: "IPNet option"
  r_Priority :: int
  r_Table :: int
  r_Scope :: int
  r_Protocol :: int

record LinkAttrs =
  la_Name :: string
  la_Index :: int
  la_RawFlags :: int

record NlAddr =
  a_IP :: bytes
  a_Mask :: bytes
  a_Flags :: int

record NeighUpdate =
  nu_Type :: int
  nu_Neigh :: Neigh

record RouteUpdate =
  ru_Type :: int
  ru_Route :: Route

record LinkUpdate =
  lu_Type :: int
  lu_Index :: int
  lu_Flags :: int
  lu_Name :: string

record AddrUpdate =
  au_IP :: bytes
  au_LinkIndex :: int

datatype call =
    NeighSet Neigh
  | NeighDel Neigh
  | RouteReplace Route
  | RouteDel Route
  | LinkByIndex int
  | LinkByName string
  | AddrList int
  | NeighList int
  | RouteList int
  | ReadFile string
  | WriteFile string bytes
  | Socket
  | BindToDevice int string
  | SetsockoptInt int int int int
  | Bind int nat
  | Sendto int bytes bytes nat
  | Close int
  | CloseDone nat
  | GoReadLoop nat

record env =
  ans_err :: "call list \<Rightarrow> call \<Rightarrow> errno option"
  ans_linkByIndex :: "call list \<Rightarrow> int \<Rightarrow> errno + LinkAttrs"
  ans_linkByName :: "call list \<Rightarrow> string \<Rightarrow> errno + LinkAttrs"
  ans_addrList :: "call list \<Rightarrow> int \<Rightarrow> errno + NlAddr list"
  ans_neighList :: "call list \<Rightarrow> int \<Rightarrow> errno + Neigh list"
  ans_routeList :: "call list \<Rightarrow> int \<Rightarrow> errno + Route list"
  ans_readFile :: "call list \<Rightarrow> string \<Rightarrow> errno + bytes"
  ans_socket :: "call list \<Rightarrow> errno + int"

text \<open>
  An environment in which every call succeeds and every listing is empty, for the witnesses.
\<close>

definition quiet_env :: env where
  "quiet_env = \<lparr>
     ans_err = (\<lambda>h c. None),
     ans_linkByIndex = (\<lambda>h i. Inr \<lparr>la_Name = '''', la_Index = i, la_RawFlags = 0x40\<rparr>),
     ans_linkByName = (\<lambda>h n. Inl ENOENT),
     ans_addrList = (\<lambda>h i. Inr []),
     ans_neighList = (\<lambda>h i. Inr []),
     ans_routeList = (\<lambda>h i. Inr []),
     ans_readFile = (\<lambda>h p. Inl ENOENT),
     ans_socket = (\<lambda>h. Inr 3)\<rparr>"

section \<open>What the program has asked the kernel to hold\<close>

text \<open>
  The abstract view of a call history: the proxy-ARP entries and host routes whose last request
  was to install them. It is a function of the program's own requests (a request the kernel
  refused counts as made) and the abstract state the mirror operations are compared with.
\<close>

fun proxy_request :: "call \<Rightarrow> (bytes \<times> int) set \<Rightarrow> (bytes \<times> int) set" where
  "proxy_request (NeighSet n) P =
     (if n_Flags n = NTF_PROXY then insert (n_IP n, n_LinkIndex n) P else P)"
| "proxy_request (NeighDel n) P =
     (if n_Flags n = NTF_PROXY then P - {(n_IP n, n_LinkIndex n)} else P)"
| "proxy_request c P = P"

fun route_request :: "call \<Rightarrow> (IPNet \<times> int) set \<Rightarrow> (IPNet \<times> int) set" where
  "route_request (RouteReplace r) R =
     (case r_Dst r of Some d \<Rightarrow> insert (d, r_LinkIndex r) R | None \<Rightarrow> R)"
| "route_request (RouteDel r) R =
     (case r_Dst r of Some d \<Rightarrow> R - {(d, r_LinkIndex r)} | None \<Rightarrow> R)"
| "route_request c R = R"

definition proxies :: "call list \<Rightarrow> (bytes \<times> int) set" where
  "proxies cs = fold proxy_request cs {}"

definition routes :: "call list \<Rightarrow> (IPNet \<times> int) set" where
  "routes cs = fold route_request cs {}"

lemma proxies_simps [simp, trace_simps]:
  "proxies [] = {}"
  "proxies (cs @ ds) = fold proxy_request ds (proxies cs)"
  by (simp_all add: proxies_def)

lemma routes_simps [simp, trace_simps]:
  "routes [] = {}"
  "routes (cs @ ds) = fold route_request ds (routes cs)"
  by (simp_all add: routes_def)

end
