(* ===== verification/Iface.thy ===== *)
theory Iface
  imports Kernel_Calls
begin

text \<open>
  The interfaces of the relay (\<open>internal/relay/iface.go\<close>) and the daemon's whole mutable state.

  Go shares interfaces by pointer: the registry \<open>interfaces\<close> maps config names to pointers, and
  every open socket points back at its interface. The model keeps the pointers: \<open>heap\<close> maps a
  reference to the interface stored there, the registry is an association list from names to
  references, and a socket holds the reference of its interface. The order of the association
  list stands for the order in which Go ranges over the map; the step relation of \<open>Engine_Loop\<close>
  may permute it between two events, and statements hold for every order.

  The set \<open>mirroredNeighs\<close> (\<open>internal/relay/netlink.go\<close>) is a list of keys, again with the
  iteration order explicit. \<open>timers\<close> holds what \<open>time.AfterFunc\<close> was asked for and has not fired
  yet, \<open>trace\<close> the calls made to the kernel.
\<close>

datatype Mode = ModeDisabled | ModeRelay

record IPAddr =
  ip_Addr :: Addr
  ip_PrefixLen :: nat
  ip_Tentative :: bool

type_synonym iref = nat

record dhcpSock =
  ds_id :: nat
  ds_fd :: int
  ds_iface :: iref

record Interface =
  Name :: string
  Ifname :: string
  Ifindex :: int
  Running :: bool
  Master :: bool
  LearnRoutes :: bool
  Inuse :: bool
  Addr4s :: "IPAddr list"
  DHCPv4 :: Mode
  ARP :: Mode
  dhcp :: "dhcpSock list"

record mirroredNeighKey =
  mk_addr :: Addr
  mk_ifindex :: int

datatype timer = ReconcileTimer | SweepTimer

record state =
  heap :: "iref \<Rightarrow> Interface"
  nextRef :: iref
  interfaces :: "(string \<times> iref) list"
  nextSock :: nat
  mirroredNeighs :: "mirroredNeighKey list"
  reconcileScheduled :: bool
  staleClientSweepInterval :: "64 word"
  mirrorSweepDone :: bool
  mirrorSweepOnce :: bool
  logLevel :: int
  timers :: "(64 word \<times> timer) list"
  trace :: "call list"

definition new_Interface :: "string \<Rightarrow> Interface" where
  \<comment> \<open>\<open>&Interface{Name: name}\<close>: every other field has its zero value\<close>
  "new_Interface name = \<lparr>Name = name, Ifname = '''', Ifindex = 0, Running = False, Master = False,
     LearnRoutes = False, Inuse = False, Addr4s = [], DHCPv4 = ModeDisabled, ARP = ModeDisabled,
     dhcp = []\<rparr>"

definition iface_refs :: "state \<Rightarrow> iref list" where
  "iface_refs s = map snd (interfaces s)"

definition set_iface :: "iref \<Rightarrow> (Interface \<Rightarrow> Interface) \<Rightarrow> state \<Rightarrow> state" where
  "set_iface r f s = s\<lparr>heap := (heap s)(r := f (heap s r))\<rparr>"

definition ifaceByIndex :: "state \<Rightarrow> int \<Rightarrow> iref option" where
  "ifaceByIndex s i = find (\<lambda>r. Ifindex (heap s r) = i) (iface_refs s)"

definition ifaceByIfname :: "state \<Rightarrow> string \<Rightarrow> iref option" where
  "ifaceByIfname s name = find (\<lambda>r. Ifname (heap s r) = name) (iface_refs s)"

definition setInterfaceDefaults :: "iref \<Rightarrow> state \<Rightarrow> state" where
  "setInterfaceDefaults r =
     set_iface r (\<lambda>i. i\<lparr>DHCPv4 := ModeRelay, ARP := ModeRelay, LearnRoutes := True\<rparr>)"

datatype mac_error = NoSuchInterface errno | NoHardwareAddress string

definition getMAC :: "(string \<Rightarrow> errno + bytes) \<Rightarrow> Interface \<Rightarrow> mac_error + bytes" where
  \<comment> \<open>the argument is \<open>net.InterfaceByName\<close>, reduced to the hardware address of its result\<close>
  "getMAC interfaceByName i = (case interfaceByName (Ifname i) of
     Inl e \<Rightarrow> Inl (NoSuchInterface e)
   | Inr hw \<Rightarrow> if length hw < 6 then Inl (NoHardwareAddress (Ifname i)) else Inr hw)"

fun firstUsable4 :: "IPAddr list \<Rightarrow> Addr \<times> bool" where
  "firstUsable4 [] = (ZeroAddr, False)"
| "firstUsable4 (a # as) =
     (if ip_Tentative a \<or> \<not> Is4 (ip_Addr a) then firstUsable4 as
      else if IsLoopback (ip_Addr a) \<or> IsLinkLocalUnicast (ip_Addr a) \<or> IsMulticast (ip_Addr a)
           then firstUsable4 as
      else (ip_Addr a, True))"

definition relayLinkAddress4 :: "Interface \<Rightarrow> Addr \<times> bool" where
  "relayLinkAddress4 i = firstUsable4 (Addr4s i)"

definition issue :: "call \<Rightarrow> state \<Rightarrow> state" where
  "issue c s = s\<lparr>trace := trace s @ [c]\<rparr>"

definition perform :: "env \<Rightarrow> call \<Rightarrow> state \<Rightarrow> errno option \<times> state" where
  "perform E c s = (ans_err E (trace s) c, issue c s)"

section \<open>Reading the state\<close>

lemma set_iface_simps [simp, frame_simps]:
  "heap (set_iface r f s) r' = (if r' = r then f (heap s r) else heap s r')"
  "nextRef (set_iface r f s) = nextRef s"
  "interfaces (set_iface r f s) = interfaces s"
  "nextSock (set_iface r f s) = nextSock s"
  "mirroredNeighs (set_iface r f s) = mirroredNeighs s"
  "reconcileScheduled (set_iface r f s) = reconcileScheduled s"
  "staleClientSweepInterval (set_iface r f s) = staleClientSweepInterval s"
  "mirrorSweepDone (set_iface r f s) = mirrorSweepDone s"
  "mirrorSweepOnce (set_iface r f s) = mirrorSweepOnce s"
  "logLevel (set_iface r f s) = logLevel s"
  "timers (set_iface r f s) = timers s"
  "trace (set_iface r f s) = trace s"
  "iface_refs (set_iface r f s) = iface_refs s"
  by (simp_all add: set_iface_def iface_refs_def)

lemma issue_simps [simp, frame_simps]:
  "heap (issue c s) = heap s"
  "nextRef (issue c s) = nextRef s"
  "interfaces (issue c s) = interfaces s"
  "nextSock (issue c s) = nextSock s"
  "mirroredNeighs (issue c s) = mirroredNeighs s"
  "reconcileScheduled (issue c s) = reconcileScheduled s"
  "staleClientSweepInterval (issue c s) = staleClientSweepInterval s"
  "mirrorSweepDone (issue c s) = mirrorSweepDone s"
  "mirrorSweepOnce (issue c s) = mirrorSweepOnce s"
  "logLevel (issue c s) = logLevel s"
  "timers (issue c s) = timers s"
  "trace (issue c s) = trace s @ [c]"
  "iface_refs (issue c s) = iface_refs s"
  by (simp_all add: issue_def iface_refs_def)

lemma find_Some_set: "find P xs = Some x \<Longrightarrow> x \<in> set xs \<and> P x"
  by (auto simp: find_Some_iff)

lemma ifaceByIndex_SomeD:
  "ifaceByIndex s i = Some r \<Longrightarrow> r \<in> set (iface_refs s) \<and> Ifindex (heap s r) = i"
  by (auto simp: ifaceByIndex_def dest: find_Some_set)

lemma ifaceByIndex_None_iff:
  "ifaceByIndex s i = None \<longleftrightarrow> (\<forall>r \<in> set (iface_refs s). Ifindex (heap s r) \<noteq> i)"
  by (auto simp: ifaceByIndex_def find_None_iff)

lemma ifaceByIfname_SomeD:
  "ifaceByIfname s n = Some r \<Longrightarrow> r \<in> set (iface_refs s) \<and> Ifname (heap s r) = n"
  by (auto simp: ifaceByIfname_def dest: find_Some_set)

section \<open>The address an interface relays with\<close>

definition usable4 :: "IPAddr \<Rightarrow> bool" where
  "usable4 a \<longleftrightarrow> \<not> ip_Tentative a \<and> Is4 (ip_Addr a) \<and> \<not> IsLoopback (ip_Addr a) \<and>
     \<not> IsLinkLocalUnicast (ip_Addr a) \<and> \<not> IsMulticast (ip_Addr a)"

lemma firstUsable4_find:
  "firstUsable4 as = (case find usable4 as of Some a \<Rightarrow> (ip_Addr a, True) | None \<Rightarrow> (ZeroAddr, False))"
  by (induction as) (auto simp: usable4_def)

lemma relayLinkAddress4_Is4:
  "relayLinkAddress4 i = (a, True) \<Longrightarrow> Is4 a \<and> \<not> IsLoopback a \<and> \<not> IsLinkLocalUnicast a \<and> \<not> IsMulticast a"
  by (auto simp: relayLinkAddress4_def firstUsable4_find usable4_def split: option.splits
      dest!: find_Some_set)

lemma find_Some_split:
  "find P xs = Some x \<Longrightarrow> \<exists>pre post. xs = pre @ x # post \<and> P x \<and> (\<forall>y \<in> set pre. \<not> P y)"
proof (induction xs)
  case (Cons y ys)
  show ?case
  proof (cases "P y")
    case True
    with Cons.prems show ?thesis
      by (intro exI [of _ "[]"] exI [of _ ys]) simp
  next
    case False
    with Cons obtain pre post where "ys = pre @ x # post" "P x" "\<forall>y \<in> set pre. \<not> P y" by auto
    with False show ?thesis
      by (intro exI [of _ "y # pre"] exI [of _ post]) simp
  qed
qed simp

text \<open>The address an interface relays with is its first IPv4 unicast address that is neither tentative,
  loopback, link-local nor multicast, in the order the kernel lists them; there is none exactly when
  no address qualifies.\<close>
lemma relayLinkAddress4_first:
  "relayLinkAddress4 i = (a, True) \<longleftrightarrow>
     (\<exists>pre x post. Addr4s i = pre @ x # post \<and> usable4 x \<and> ip_Addr x = a \<and> (\<forall>y \<in> set pre. \<not> usable4 y))"
proof -
  have "find usable4 (pre @ x # post) = Some x" if "usable4 x" "\<forall>y \<in> set pre. \<not> usable4 y" for pre x post
    using that by (induction pre) auto
  moreover have "\<exists>pre post. as = pre @ x # post \<and> usable4 x \<and> (\<forall>y \<in> set pre. \<not> usable4 y)"
    if "find usable4 as = Some x" for as x
    using that by (metis find_Some_split)
  ultimately have "find usable4 (Addr4s i) = Some x \<longleftrightarrow>
      (\<exists>pre post. Addr4s i = pre @ x # post \<and> usable4 x \<and> (\<forall>y \<in> set pre. \<not> usable4 y))" for x
    by metis
  moreover have "relayLinkAddress4 i = (a, True) \<longleftrightarrow> (\<exists>x. find usable4 (Addr4s i) = Some x \<and> ip_Addr x = a)"
    by (auto simp: relayLinkAddress4_def firstUsable4_find split: option.split)
  ultimately show ?thesis
    by blast
qed

lemma relayLinkAddress4_first_witness:
  "relayLinkAddress4 ((new_Interface ''lan'')\<lparr>Addr4s := [\<lparr>ip_Addr = Addr4 169 254 0 1, ip_PrefixLen = 16, ip_Tentative = False\<rparr>,
     \<lparr>ip_Addr = Addr4 10 0 0 1, ip_PrefixLen = 24, ip_Tentative = False\<rparr>]\<rparr>) = (Addr4 10 0 0 1, True)"
proof (subst relayLinkAddress4_first, intro exI conjI)
  show "Addr4s ((new_Interface ''lan'')\<lparr>Addr4s := [\<lparr>ip_Addr = Addr4 169 254 0 1, ip_PrefixLen = 16, ip_Tentative = False\<rparr>,
     \<lparr>ip_Addr = Addr4 10 0 0 1, ip_PrefixLen = 24, ip_Tentative = False\<rparr>]\<rparr>) =
     [\<lparr>ip_Addr = Addr4 169 254 0 1, ip_PrefixLen = 16, ip_Tentative = False\<rparr>] @
     \<lparr>ip_Addr = Addr4 10 0 0 1, ip_PrefixLen = 24, ip_Tentative = False\<rparr> # []"
    by simp
qed (simp_all add: usable4_def IsLoopback_def IsLinkLocalUnicast_def IsMulticast_def)

end
