(* ===== verification/Log_Level.thy ===== *)
theory Log_Level
  imports Iface
begin

text \<open>
  Logging (\<open>internal/relay/log.go\<close>): the level, the choice of the destination, and the
  priority a message is sent with. The log level is part of the daemon's state. Where messages go
  is decided once at start-up, by the variables \<open>logSyslog\<close> and \<open>sysWriter\<close>, which make up the
  record \<open>log_dest\<close>; \<open>sysWriter\<close> is only ever compared with nil, so a bool stands for it. The text
  of a message and the syslog connection itself are not modelled.
\<close>

definition LogEmerg :: int where [simp]: "LogEmerg = 0"
definition LogAlert :: int where [simp]: "LogAlert = 1"
definition LogCrit :: int where [simp]: "LogCrit = 2"
definition LogErr :: int where [simp]: "LogErr = 3"
definition LogWarning :: int where [simp]: "LogWarning = 4"
definition LogNotice :: int where [simp]: "LogNotice = 5"
definition LogInfo :: int where [simp]: "LogInfo = 6"
definition LogDebug :: int where [simp]: "LogDebug = 7"

definition SetLogLevel :: "int \<Rightarrow> state \<Rightarrow> state" where
  "SetLogLevel level s = s\<lparr>logLevel := level AND 0x7\<rparr>"

definition LogLevel :: "state \<Rightarrow> int" where
  "LogLevel s = logLevel s"

record log_dest =
  logSyslog :: bool
  sysWriter :: bool

definition initial_dest :: log_dest where
  "initial_dest = \<lparr>logSyslog = True, sysWriter = False\<rparr>"

definition SetLogSyslog :: "bool \<Rightarrow> string option \<Rightarrow> log_dest \<Rightarrow> string option \<times> log_dest" where
  \<comment> \<open>the second argument is the error of \<open>syslog.New\<close>\<close>
  "SetLogSyslog toSyslog newErr d =
     (let d1 = d\<lparr>logSyslog := toSyslog\<rparr>
      in if \<not> toSyslog then (None, d1)
         else (case newErr of Some e \<Rightarrow> (Some e, d1) | None \<Rightarrow> (None, d1\<lparr>sysWriter := True\<rparr>)))"

datatype sink = Dropped | Stderr | Emerg | Alert | Crit | Err | Warning | Notice | Info | Debug

definition logf :: "int \<Rightarrow> log_dest \<Rightarrow> int \<Rightarrow> sink" where
  \<comment> \<open>where a message of priority \<open>level\<close> goes under the given \<open>logLevel\<close> and destination\<close>
  "logf lvl d level =
     (if level > lvl then Dropped
      else if logSyslog d \<and> sysWriter d then
        (if level = LogEmerg then Emerg
         else if level = LogAlert then Alert
         else if level = LogCrit then Crit
         else if level = LogErr then Err
         else if level = LogWarning then Warning
         else if level = LogNotice then Notice
         else if level = LogInfo then Info
         else Debug)
      else Stderr)"

definition Debugf :: "int \<Rightarrow> log_dest \<Rightarrow> sink" where "Debugf lvl d = logf lvl d LogDebug"
definition Infof :: "int \<Rightarrow> log_dest \<Rightarrow> sink" where "Infof lvl d = logf lvl d LogInfo"
definition Noticef :: "int \<Rightarrow> log_dest \<Rightarrow> sink" where "Noticef lvl d = logf lvl d LogNotice"
definition Warnf :: "int \<Rightarrow> log_dest \<Rightarrow> sink" where "Warnf lvl d = logf lvl d LogWarning"
definition Errorf :: "int \<Rightarrow> log_dest \<Rightarrow> sink" where "Errorf lvl d = logf lvl d LogErr"

lemma and_7_mod: "(n :: int) AND 0x7 = n mod 8"
  using take_bit_eq_mask [of 3 n] by (simp add: take_bit_eq_mod mask_eq_exp_minus_1)

lemma SetLogLevel_simps [simp, frame_simps]:
  "heap (SetLogLevel l s) = heap s" "nextRef (SetLogLevel l s) = nextRef s"
  "interfaces (SetLogLevel l s) = interfaces s" "nextSock (SetLogLevel l s) = nextSock s"
  "mirroredNeighs (SetLogLevel l s) = mirroredNeighs s"
  "reconcileScheduled (SetLogLevel l s) = reconcileScheduled s"
  "staleClientSweepInterval (SetLogLevel l s) = staleClientSweepInterval s"
  "mirrorSweepDone (SetLogLevel l s) = mirrorSweepDone s"
  "mirrorSweepOnce (SetLogLevel l s) = mirrorSweepOnce s" "timers (SetLogLevel l s) = timers s"
  "trace (SetLogLevel l s) = trace s" "iface_refs (SetLogLevel l s) = iface_refs s"
  "logLevel (SetLogLevel l s) = l mod 8"
  by (simp_all add: SetLogLevel_def iface_refs_def and_7_mod)

lemma LogLevel_set: "LogLevel (SetLogLevel l s) = l mod 8"
  by (simp add: LogLevel_def)

lemma SetLogLevel_range: "0 \<le> logLevel (SetLogLevel l s) \<and> logLevel (SetLogLevel l s) < 8"
  by simp

text \<open>Only a filtered message is dropped, whatever became of the connection to syslog.\<close>

lemma logf_kept:
  assumes "SetLogSyslog b e initial_dest = (err, d)"
  shows "(logf lvl d level = Dropped \<longleftrightarrow> lvl < level) \<and>
    (logf lvl d level = Stderr \<longleftrightarrow> level \<le> lvl \<and> (\<not> b \<or> err \<noteq> None))"
proof -
  have "logSyslog d \<and> sysWriter d \<longleftrightarrow> b \<and> err = None"
    using assms by (cases b; cases e) (auto simp: SetLogSyslog_def initial_dest_def)
  then show ?thesis
    by (simp add: logf_def)
qed

end
