(* ===== verification/Option_Area.thy ===== *)
theory Option_Area
  imports Relay_Prelude
begin

text \<open>
  The option areas of a DHCP packet, as data: an area is a run of \<^emph>\<open>items\<close> (pad bytes and
  code/length/payload options) followed by an \<^emph>\<open>ending\<close>, which is the End option with
  whatever follows it, or the bytes at which the area stops being well-formed.
  \<open>read_area\<close> reads any byte list this way and \<open>encode_items\<close> is its inverse; they are the
  reference the walks of the program are compared with, and model no code themselves.

  The program walks option areas in four places, each with an offset into the whole packet
  and its own accumulator. The locale \<open>area_walk\<close> is the contract these walks share (what one
  walk does with one item and with an ending); from it follows that the walk is a run over
  the items \<open>read_area\<close> finds. Theory \<open>Dhcp_Options\<close> interprets it for each of the walks.
\<close>

datatype item = Pad | Opt byte bytes

datatype ending = EndAt bytes | Malformed bytes

fun encode_item :: "item \<Rightarrow> bytes" where
  "encode_item Pad = [0]"
| "encode_item (Opt c p) = c # of_nat (length p) # p"

definition encode_items :: "item list \<Rightarrow> bytes" where
  "encode_items its = concat (map encode_item its)"

fun ending_bytes :: "ending \<Rightarrow> bytes" where
  "ending_bytes (EndAt t) = 255 # t"
| "ending_bytes (Malformed r) = r"

fun wf_item :: "item \<Rightarrow> bool" where
  "wf_item Pad = True"
| "wf_item (Opt c p) \<longleftrightarrow> c \<noteq> 0 \<and> c \<noteq> 255 \<and> length p < 256"

fun stuck :: "bytes \<Rightarrow> bool" where
  "stuck [] = True"
| "stuck (c # r) \<longleftrightarrow> c \<noteq> 0 \<and> c \<noteq> 255 \<and>
     (case r of [] \<Rightarrow> True | l # ys \<Rightarrow> length ys < unat l)"

fun stops :: "ending \<Rightarrow> bool" where
  "stops (EndAt t) = True"
| "stops (Malformed r) = stuck r"

function read_area :: "bytes \<Rightarrow> item list \<times> ending" where
  "read_area [] = ([], Malformed [])"
| "read_area (c # xs) =
     (if c = 255 then ([], EndAt xs)
      else if c = 0 then (case read_area xs of (its, e) \<Rightarrow> (Pad # its, e))
      else if xs = [] \<or> length (tl xs) < unat (hd xs) then ([], Malformed (c # xs))
      else (case read_area (drop (unat (hd xs)) (tl xs)) of
              (its, e) \<Rightarrow> (Opt c (take (unat (hd xs)) (tl xs)) # its, e)))"
  by pat_completeness auto
termination
  by (relation "measure length") (auto simp: less_Suc_eq_le)

lemma encode_items_simps [simp, wire_simps]:
  "encode_items [] = []"
  "encode_items (i # its) = encode_item i @ encode_items its"
  "encode_items (its @ its') = encode_items its @ encode_items its'"
  by (simp_all add: encode_items_def)

lemma length_encode_item: "length (encode_item i) = (case i of Pad \<Rightarrow> 1 | Opt c p \<Rightarrow> 2 + length p)"
  by (cases i) auto

lemma length_encode_item_pos [simp]: "0 < length (encode_item i)" "encode_item i \<noteq> []"
  by (cases i; simp)+

lemma unat_of_nat_byte [simp]: "n < 256 \<Longrightarrow> unat (of_nat n :: byte) = n"
  by (simp add: unat_of_nat take_bit_eq_mod)

lemma unat_byte_less [simp]: "unat (b :: byte) < 256"
  using unsigned_less [of b, where ?'a = nat] by simp

lemma of_nat_length_take_byte:
  "unat l \<le> length ys \<Longrightarrow> of_nat (length (take (unat l) ys)) = (l :: byte)"
  by (simp add: min_def)

section \<open>Reading and encoding are inverse\<close>

lemma read_area_item:
  assumes "wf_item i" and "read_area rest = (its, e)"
  shows "read_area (encode_item i @ rest) = (i # its, e)"
  using assms by (cases i) auto

lemma read_area_ending: "stops e \<Longrightarrow> read_area (ending_bytes e) = ([], e)"
proof (cases e)
  case (Malformed r)
  moreover assume "stops e"
  ultimately show ?thesis
    by (cases r) (auto split: list.splits)
qed simp

lemma read_area_encode:
  assumes "list_all wf_item its" and "stops e"
  shows "read_area (encode_items its @ ending_bytes e) = (its, e)"
  using assms
proof (induction its)
  case Nil
  then show ?case by (simp add: read_area_ending)
next
  case (Cons i its)
  then have "read_area (encode_items its @ ending_bytes e) = (its, e)"
    by simp
  with Cons.prems read_area_item [of i] show ?case
    by simp
qed

lemma read_area_sound:
  "read_area xs = (its, e) \<Longrightarrow>
   xs = encode_items its @ ending_bytes e \<and> list_all wf_item its \<and> stops e"
proof (induction xs arbitrary: its e rule: read_area.induct)
  case 1
  then show ?case by auto
next
  case (2 c xs)
  consider "c = 255" | "c = 0" | "c \<noteq> 255" "c \<noteq> 0" "xs = [] \<or> length (tl xs) < unat (hd xs)"
    | l ys where "c \<noteq> 255" "c \<noteq> 0" "xs = l # ys" "unat l \<le> length ys"
    by (cases xs) force+
  then show ?case
  proof cases
    case 1
    with 2 show ?thesis by auto
  next
    case c0: 2
    obtain its' e' where "read_area xs = (its', e')" by fastforce
    with c0 2 show ?thesis by auto
  next
    case 3
    with 2 show ?thesis by (auto split: list.splits)
  next
    case 4
    obtain its' e' where r: "read_area (drop (unat l) ys) = (its', e')" by fastforce
    with 4 2 have IH: "drop (unat l) ys = encode_items its' @ ending_bytes e'"
        "list_all wf_item its'" "stops e'"
      by auto
    from 4 r 2 have "its = Opt c (take (unat l) ys) # its'" "e = e'"
      by auto
    moreover have "ys = take (unat l) ys @ encode_items its' @ ending_bytes e'"
      using IH(1) by (metis append_take_drop_id)
    moreover have "of_nat (length (take (unat l) ys)) = l"
      using 4 by (rule_tac of_nat_length_take_byte)
    ultimately show ?thesis
      using 4 IH by (auto simp: min_def)
  qed
qed

lemma read_area_stops: "read_area xs = (its, e) \<Longrightarrow> stops e"
  using read_area_sound by blast

text \<open>What the walks read at an offset, from what the area holds there.\<close>

lemma at_Pad:
  assumes "drop off d = encode_item Pad @ rest"
  shows "off < length d" "d ! off = 0"
  using drop_eq_ConsD [of off d 0 rest] assms by simp_all

lemma at_Opt:
  assumes "wf_item (Opt c p)" and "drop off d = encode_item (Opt c p) @ rest"
  shows "off < length d" "d ! off = c" "c \<noteq> 0" "c \<noteq> 255"
    "off + 2 + length p \<le> length d" "Suc off < length d" "unat (d ! Suc off) = length p"
    "take (length p) (drop (Suc (Suc off)) d) = p"
    "take (Suc (Suc (length p))) (drop off d) = encode_item (Opt c p)"
proof -
  have a: "drop off d = c # of_nat (length p) # p @ rest"
    using assms by simp
  then have b: "drop (Suc off) d = of_nat (length p) # p @ rest"
    using drop_eq_ConsD by fastforce
  then have e: "drop (Suc (Suc off)) d = p @ rest"
    using drop_eq_ConsD by fastforce
  show "off < length d" "d ! off = c" "c \<noteq> 0" "c \<noteq> 255"
    using drop_eq_ConsD [OF a] assms by simp_all
  show "Suc off < length d" "unat (d ! Suc off) = length p"
    using drop_eq_ConsD [OF b] assms(1) by simp_all
  have "length (drop off d) = 2 + length p + length rest"
    by (simp add: a)
  then show "off + 2 + length p \<le> length d"
    by (simp add: \<open>off < length d\<close>)
  show "take (length p) (drop (Suc (Suc off)) d) = p"
    by (simp add: e)
  show "take (Suc (Suc (length p))) (drop off d) = encode_item (Opt c p)"
    by (simp add: a)
qed

lemma at_End:
  assumes "drop off d = ending_bytes (EndAt t)"
  shows "off < length d" "d ! off = 255" "length d - off = Suc (length t)"
proof -
  show "off < length d" "d ! off = 255"
    using drop_eq_ConsD [of off d 255 t] assms by simp_all
  have "length (drop off d) = Suc (length t)"
    by (simp only: assms ending_bytes.simps length_Cons)
  then show "length d - off = Suc (length t)"
    by simp
qed

lemma at_Malformed:
  assumes "stuck r" and "drop off d = r" and "off \<le> length d"
  obtains "off = length d" "r = []"
  | c where "off < length d" "d ! off = c" "c \<noteq> 0" "c \<noteq> 255" "length d = off + 1" "r = [c]"
  | c where "Suc off < length d" "d ! off = c" "c \<noteq> 0" "c \<noteq> 255" "hd r = c" "r \<noteq> []"
      "length d < off + 2 + unat (d ! Suc off)"
proof (cases r)
  case Nil
  with assms that(1) show ?thesis by simp
next
  case (Cons c r')
  with assms(2) have h: "off < length d \<and> d ! off = c \<and> drop (Suc off) d = r'"
    using drop_eq_ConsD by metis
  show ?thesis
  proof (cases r')
    case Nil
    with h Cons assms that(2) [of c] show ?thesis by auto
  next
    case (Cons l ys)
    with h have "Suc off < length d \<and> d ! Suc off = l \<and> drop (Suc (Suc off)) d = ys"
      using drop_eq_ConsD by metis
    with h Cons \<open>r = c # r'\<close> assms that(3) [of c] show ?thesis by auto
  qed
qed

section \<open>The shared contract of the walks\<close>

fun run_items ::
  "(item \<Rightarrow> nat \<Rightarrow> 'acc \<Rightarrow> 'r + 'acc) \<Rightarrow> (ending \<Rightarrow> nat \<Rightarrow> 'acc \<Rightarrow> 'r) \<Rightarrow>
   item list \<Rightarrow> ending \<Rightarrow> nat \<Rightarrow> 'acc \<Rightarrow> 'r" where
  "run_items step fin [] e off a = fin e off a"
| "run_items step fin (i # its) e off a =
     (case step i off a of
        Inl r \<Rightarrow> r
      | Inr a' \<Rightarrow> run_items step fin its e (off + length (encode_item i)) a')"

locale area_walk =
  fixes walk :: "bytes \<Rightarrow> nat \<Rightarrow> 'acc \<Rightarrow> 'r"
    and step :: "bytes \<Rightarrow> item \<Rightarrow> nat \<Rightarrow> 'acc \<Rightarrow> 'r + 'acc"
    and fin :: "bytes \<Rightarrow> ending \<Rightarrow> nat \<Rightarrow> 'acc \<Rightarrow> 'r"
  assumes walk_item:
      "wf_item i \<Longrightarrow> off \<le> length d \<Longrightarrow> drop off d = encode_item i @ rest \<Longrightarrow>
       walk d off a =
         (case step d i off a of Inl r \<Rightarrow> r | Inr a' \<Rightarrow> walk d (off + length (encode_item i)) a')"
    and walk_stop:
      "stops e \<Longrightarrow> off \<le> length d \<Longrightarrow> drop off d = ending_bytes e \<Longrightarrow>
       walk d off a = fin d e off a"
begin

lemma walk_items:
  assumes "list_all wf_item its" and "stops e" and "off \<le> length d"
    and "drop off d = encode_items its @ ending_bytes e"
  shows "walk d off a = run_items (step d) (fin d) its e off a"
  using assms
proof (induction its arbitrary: off a)
  case Nil
  then show ?case by (simp add: walk_stop)
next
  case (Cons i its)
  let ?off = "off + length (encode_item i)"
  have here: "drop off d = encode_item i @ (encode_items its @ ending_bytes e)"
    using Cons.prems by simp
  with Cons.prems have "?off \<le> length d \<and> drop ?off d = encode_items its @ ending_bytes e"
    using drop_eq_appendD by blast
  with Cons have "walk d ?off a' = run_items (step d) (fin d) its e ?off a'" for a'
    by simp
  with Cons.prems walk_item [OF _ _ here, of a] show ?case
    by (simp split: sum.splits)
qed

lemma walk_run:
  assumes "off \<le> length d" and "read_area (drop off d) = (its, e)"
  shows "walk d off a = run_items (step d) (fin d) its e off a"
  using assms read_area_sound [OF assms(2)] by (auto intro: walk_items)

end

section \<open>Contents of an area\<close>

definition carries :: "byte \<Rightarrow> item list \<Rightarrow> bool" where
  "carries c its \<longleftrightarrow> (\<exists>p. Opt c p \<in> set its)"

definition without :: "byte \<Rightarrow> item list \<Rightarrow> item list" where
  "without c its = filter (\<lambda>i. case i of Pad \<Rightarrow> True | Opt c' p \<Rightarrow> c' \<noteq> c) its"

lemma carries_simps [simp, wire_simps]:
  "carries c [] = False"
  "carries c (Pad # its) = carries c its"
  "carries c (Opt c' p # its) \<longleftrightarrow> c' = c \<or> carries c its"
  "carries c (its @ its') \<longleftrightarrow> carries c its \<or> carries c its'"
  by (auto simp: carries_def)

lemma without_simps [simp, wire_simps]:
  "without c [] = []"
  "without c (Pad # its) = Pad # without c its"
  "without c (Opt c' p # its) = (if c' = c then without c its else Opt c' p # without c its)"
  "without c (its @ its') = without c its @ without c its'"
  by (auto simp: without_def)

lemma without_wf: "list_all wf_item its \<Longrightarrow> list_all wf_item (without c its)"
  by (auto simp: without_def list_all_iff)

lemma without_id: "\<not> carries c its \<Longrightarrow> without c its = its"
  by (induction its) (auto simp: without_def carries_def split: item.splits)

lemma not_carries_without [simp]: "\<not> carries c (without c its)"
  by (auto simp: carries_def without_def)

lemma length_without: "length (encode_items (without c its)) \<le> length (encode_items its)"
  by (induction its) (auto simp: without_def split: item.splits)

end
