(* ===== verification/Dhcp_Wire.thy ===== *)
theory Dhcp_Wire
  imports Option_Area
begin

text \<open>
  The constants of the BOOTP/DHCPv4 wire layout (\<open>internal/relay/dhcpv4.go\<close>), the message
  type names, and the byte-order conversions of \<open>encoding/binary\<close> the program uses.
  The constants are simplification rules, so statements about packets compute.
\<close>

section \<open>Header layout\<close>

definition bootpSnameOff :: nat where [simp]: "bootpSnameOff = 44"
definition bootpSnameLen :: nat where [simp]: "bootpSnameLen = 64"
definition bootpFileOff :: nat where [simp]: "bootpFileOff = 108"
definition bootpFileLen :: nat where [simp]: "bootpFileLen = 128"
definition dhcpCookieOff :: nat where [simp]: "dhcpCookieOff = 236"
definition dhcpOptionsOff :: nat where [simp]: "dhcpOptionsOff = 240"
definition dhcpv4ServerPort :: nat where [simp]: "dhcpv4ServerPort = 67"
definition dhcpv4ClientPort :: nat where [simp]: "dhcpv4ClientPort = 68"
definition bootpRequest :: byte where [simp]: "bootpRequest = 1"
definition bootpReply :: byte where [simp]: "bootpReply = 2"
definition bootpBroadcastFlag :: "16 word" where [simp]: "bootpBroadcastFlag = 0x8000"
definition dhcpMaxHops :: byte where [simp]: "dhcpMaxHops = 16"
definition dhcpMaxPktSize :: nat where [simp]: "dhcpMaxPktSize = 1400"
definition dhcpMagicCookie :: bytes where [simp]: "dhcpMagicCookie = [99, 130, 83, 99]"

section \<open>Option codes\<close>

definition dhcpOptPad :: byte where [simp]: "dhcpOptPad = 0"
definition dhcpOptEnd :: byte where [simp]: "dhcpOptEnd = 255"
definition dhcpOptRouter :: byte where [simp]: "dhcpOptRouter = 3"
definition dhcpOptMsgType :: byte where [simp]: "dhcpOptMsgType = 53"
definition dhcpOptOverload :: byte where [simp]: "dhcpOptOverload = 52"
definition dhcpOptRequested :: byte where [simp]: "dhcpOptRequested = 50"
definition dhcpOptAgentInfo :: byte where [simp]: "dhcpOptAgentInfo = 82"
definition agentSubOptCircuitID :: byte where [simp]: "agentSubOptCircuitID = 1"

section \<open>Message types\<close>

definition dhcpMsgDiscover :: int where [simp]: "dhcpMsgDiscover = 1"
definition dhcpMsgOffer :: int where [simp]: "dhcpMsgOffer = 2"
definition dhcpMsgRequest :: int where [simp]: "dhcpMsgRequest = 3"
definition dhcpMsgDecline :: int where [simp]: "dhcpMsgDecline = 4"
definition dhcpMsgAck :: int where [simp]: "dhcpMsgAck = 5"
definition dhcpMsgNak :: int where [simp]: "dhcpMsgNak = 6"
definition dhcpMsgRelease :: int where [simp]: "dhcpMsgRelease = 7"
definition dhcpMsgInform :: int where [simp]: "dhcpMsgInform = 8"

definition dhcpMsgTypeName :: "int \<Rightarrow> string" where
  "dhcpMsgTypeName t =
     (if t = dhcpMsgDiscover then ''discover''
      else if t = dhcpMsgOffer then ''offer''
      else if t = dhcpMsgRequest then ''request''
      else if t = dhcpMsgDecline then ''decline''
      else if t = dhcpMsgAck then ''ack''
      else if t = dhcpMsgNak then ''nak''
      else if t = dhcpMsgRelease then ''release''
      else if t = dhcpMsgInform then ''inform''
      else ''unknown'')"

section \<open>Byte order\<close>

definition le_Uint32 :: "byte \<Rightarrow> byte \<Rightarrow> byte \<Rightarrow> byte \<Rightarrow> 32 word" where
  \<comment> \<open>\<open>binary.LittleEndian.Uint32\<close>\<close>
  "le_Uint32 b0 b1 b2 b3 =
     ucast b0 OR push_bit 8 (ucast b1) OR push_bit 16 (ucast b2) OR push_bit 24 (ucast b3)"

definition le_PutUint32 :: "32 word \<Rightarrow> bytes" where
  \<comment> \<open>\<open>binary.LittleEndian.PutUint32\<close>\<close>
  "le_PutUint32 v = [ucast v, ucast (drop_bit 8 v), ucast (drop_bit 16 v), ucast (drop_bit 24 v)]"

definition be_Uint16 :: "byte \<Rightarrow> byte \<Rightarrow> 16 word" where
  \<comment> \<open>\<open>binary.BigEndian.Uint16\<close>\<close>
  "be_Uint16 b0 b1 = push_bit 8 (ucast b0) OR ucast b1"

lemma length_le_PutUint32 [simp]: "length (le_PutUint32 v) = 4"
  by (simp add: le_PutUint32_def)

lemma le_Uint32_PutUint32:
  assumes "le_PutUint32 v = [b0, b1, b2, b3]"
  shows "le_Uint32 b0 b1 b2 b3 = v"
proof (rule bit_word_eqI)
  fix n assume n: "n < LENGTH(32)"
  from assms have bytes: "b0 = ucast v" "b1 = ucast (drop_bit 8 v)"
      "b2 = ucast (drop_bit 16 v)" "b3 = ucast (drop_bit 24 v)"
    by (simp_all add: le_PutUint32_def)
  consider "n < 8" | "8 \<le> n" "n < 16" | "16 \<le> n" "n < 24" | "24 \<le> n" "n < 32"
    using n by fastforce
  then show "bit (le_Uint32 b0 b1 b2 b3) n \<longleftrightarrow> bit v n"
    by cases (simp_all add: le_Uint32_def bytes bit_simps less_diff_conv2)
qed

lemma be_Uint16_broadcast:
  "be_Uint16 b0 b1 AND bootpBroadcastFlag = 0 \<longleftrightarrow> b0 AND 0x80 = 0"
proof -
  have "\<not> bit b1 15"
    using bit_imp_le_length [of b1 15] by auto
  then show ?thesis
    using and_exp_eq_0_iff_not_bit [of "be_Uint16 b0 b1" 15] and_exp_eq_0_iff_not_bit [of b0 7]
    by (simp add: be_Uint16_def bit_simps)
qed
end
