(* ===== verification/Dhcp_Options.thy ===== *)
theory Dhcp_Options
  imports Dhcp_Wire Netip
begin

text \<open>
  The packet functions of \<open>internal/relay/dhcpv4.go\<close>: parsing the options areas, the
  circuit-id sub-option, and the three rewrites (insert and strip the relay agent option,
  patch the router option). Every loop keeps the code's offset into the byte slice; the reads
  are checked (\<open>None\<close> is a panic). The second half relates each loop to the items of the area
  (\<open>Option_Area\<close>) by interpreting \<open>area_walk\<close>.
\<close>

section \<open>The operations\<close>

record dhcpOption =
  opt_code :: byte
  opt_data :: bytes

function parseOptionArea_loop :: "bytes \<Rightarrow> nat \<Rightarrow> dhcpOption list \<Rightarrow> dhcpOption list option" where
  "parseOptionArea_loop area off out =
     (if length area \<le> off then Some []
      else do {
        c \<leftarrow> idx area off;
        if c = dhcpOptEnd then Some out
        else if c = dhcpOptPad then parseOptionArea_loop area (off + 1) out
        else if length area < off + 2 then Some []
        else do {
          b \<leftarrow> idx area (off + 1);
          let l = unat b;
          if length area < off + 2 + l then Some []
          else do {
            payload \<leftarrow> slc area (off + 2) (off + 2 + l);
            parseOptionArea_loop area (off + (2 + l)) (out @ [\<lparr>opt_code = c, opt_data = payload\<rparr>])
          }
        }
      })"
  by pat_completeness auto
termination
  by (relation "measure (\<lambda>(area, off, out). length area - off)") auto

declare parseOptionArea_loop.simps [simp del]

definition parseOptionArea :: "bytes \<Rightarrow> dhcpOption list option" where
  \<comment> \<open>the result \<open>[]\<close> is the nil slice, for a malformed area and for one with no options\<close>
  "parseOptionArea area = parseOptionArea_loop area 0 []"

fun dhcpOptionByte :: "dhcpOption list \<Rightarrow> byte \<Rightarrow> int \<times> bool" where
  "dhcpOptionByte [] c = (0, False)"
| "dhcpOptionByte (o1 # os) c =
     (if opt_code o1 = c \<and> length (opt_data o1) = 1 then (uint (opt_data o1 ! 0), True)
      else dhcpOptionByte os c)"

definition appendField :: "bytes \<Rightarrow> nat \<Rightarrow> nat \<Rightarrow> dhcpOption list \<Rightarrow> dhcpOption list option" where
  "appendField dat off sz out = do {
     field \<leftarrow> slc dat off (off + sz);
     area \<leftarrow> parseOptionArea field;
     Some (if area \<noteq> [] then out @ area else out)
   }"

definition parseDHCPOptions :: "bytes \<Rightarrow> dhcpOption list option" where
  "parseDHCPOptions dat = do {
     main \<leftarrow> slc dat dhcpOptionsOff (length dat);
     out \<leftarrow> parseOptionArea main;
     if out = [] then Some []
     else (case dhcpOptionByte out dhcpOptOverload of (ov, ok) \<Rightarrow>
       if \<not> ok then Some out
       else if ov = 1 then appendField dat bootpFileOff bootpFileLen out
       else if ov = 2 then appendField dat bootpSnameOff bootpSnameLen out
       else if ov = 3 then do {
         out1 \<leftarrow> appendField dat bootpFileOff bootpFileLen out;
         appendField dat bootpSnameOff bootpSnameLen out1
       }
       else Some out)
   }"

function parseCircuitID_loop :: "bytes \<Rightarrow> nat \<Rightarrow> (int \<times> bool) option" where
  "parseCircuitID_loop info off =
     (if off + 2 \<le> length info then do {
        sub \<leftarrow> idx info off;
        b \<leftarrow> idx info (off + 1);
        let l = unat b;
        if length info < off + 2 + l then Some (0, False)
        else if sub = agentSubOptCircuitID \<and> l = 4 then do {
          q \<leftarrow> slc info (off + 2) (off + 6);
          b0 \<leftarrow> idx q 0; b1 \<leftarrow> idx q 1; b2 \<leftarrow> idx q 2; b3 \<leftarrow> idx q 3;
          Some (sint (le_Uint32 b0 b1 b2 b3), True)
        }
        else parseCircuitID_loop info (off + (2 + l))
      }
      else Some (0, False))"
  by pat_completeness auto
termination
  by (relation "measure (\<lambda>(info, off). length info - off)") auto

declare parseCircuitID_loop.simps [simp del]

definition parseCircuitID :: "bytes \<Rightarrow> (int \<times> bool) option" where
  "parseCircuitID info = parseCircuitID_loop info 0"

text \<open>
  The scan of \<open>insertAgentInfo\<close> leaves its loop in three ways: at the End option, with the
  packet as it is (an option 82 is there), or without a result.
\<close>

datatype insert_scan = FoundEnd nat | AlreadyRelayed | NoEnd

function insertAgentInfo_loop :: "bytes \<Rightarrow> nat \<Rightarrow> insert_scan option" where
  "insertAgentInfo_loop dat off =
     (if length dat \<le> off then Some NoEnd
      else do {
        c \<leftarrow> idx dat off;
        if c = dhcpOptEnd then Some (FoundEnd off)
        else if c = dhcpOptPad then insertAgentInfo_loop dat (off + 1)
        else if c = dhcpOptAgentInfo then Some AlreadyRelayed
        else if length dat < off + 2 then Some NoEnd
        else do {
          b \<leftarrow> idx dat (off + 1);
          if length dat < off + (2 + unat b) then Some NoEnd
          else insertAgentInfo_loop dat (off + (2 + unat b))
        }
      })"
  by pat_completeness auto
termination
  by (relation "measure (\<lambda>(dat, off). length dat - off)") auto

declare insertAgentInfo_loop.simps [simp del]

definition agentInfoOption :: "int \<Rightarrow> bytes" where
  "agentInfoOption ifindex =
     [dhcpOptAgentInfo, 6, agentSubOptCircuitID, 4] @ le_PutUint32 (word_of_int ifindex)"

definition insertAgentInfo :: "bytes \<Rightarrow> int \<Rightarrow> (bytes \<times> bool) option" where
  "insertAgentInfo dat ifindex = do {
     r \<leftarrow> insertAgentInfo_loop dat dhcpOptionsOff;
     case r of
       NoEnd \<Rightarrow> Some ([], False)
     | AlreadyRelayed \<Rightarrow> Some (dat, True)
     | FoundEnd off \<Rightarrow>
         if dhcpMaxPktSize < length dat + 8 then Some ([], False)
         else do {
           before \<leftarrow> slc dat 0 off;
           after \<leftarrow> slc dat off (length dat);
           Some (before @ agentInfoOption ifindex @ after, True)
         }
   }"

function stripAgentInfo_loop :: "bytes \<Rightarrow> nat \<Rightarrow> bytes \<Rightarrow> bytes option" where
  "stripAgentInfo_loop dat off out =
     (if off < length dat then do {
        c \<leftarrow> idx dat off;
        if c = dhcpOptEnd then do { rest \<leftarrow> slc dat off (length dat); Some (out @ rest) }
        else if c = dhcpOptPad then stripAgentInfo_loop dat (off + 1) (out @ [c])
        else if length dat < off + 2 then Some (out @ [dhcpOptEnd])
        else do {
          b \<leftarrow> idx dat (off + 1);
          let l = unat b;
          if length dat < off + 2 + l then Some (out @ [dhcpOptEnd])
          else do {
            opt \<leftarrow> slc dat off (off + 2 + l);
            stripAgentInfo_loop dat (off + (2 + l)) (if c \<noteq> dhcpOptAgentInfo then out @ opt else out)
          }
        }
      }
      else Some (out @ [dhcpOptEnd]))"
  by pat_completeness auto
termination
  by (relation "measure (\<lambda>(dat, off, out). length dat - off)") auto

declare stripAgentInfo_loop.simps [simp del]

definition stripAgentInfo :: "bytes \<Rightarrow> bytes option" where
  "stripAgentInfo dat =
     (if length dat < dhcpOptionsOff then Some dat
      else do {
        hdr \<leftarrow> slc dat 0 dhcpOptionsOff;
        stripAgentInfo_loop dat dhcpOptionsOff hdr
      })"

function rewriteGateway_loop :: "bytes \<Rightarrow> Addr \<Rightarrow> nat \<Rightarrow> (bytes \<times> bool) option" where
  "rewriteGateway_loop dat gw off =
     (if length dat \<le> off then Some (dat, False)
      else do {
        c \<leftarrow> idx dat off;
        if c = dhcpOptEnd then Some (dat, False)
        else if c = dhcpOptPad then rewriteGateway_loop dat gw (off + 1)
        else if length dat < off + 2 then Some (dat, False)
        else do {
          b \<leftarrow> idx dat (off + 1);
          let l = unat b;
          if c = dhcpOptRouter then
            (if l \<noteq> 4 \<or> length dat < off + 2 + l then Some (dat, False)
             else do {
               dat' \<leftarrow> put dat (off + 2) (off + 2 + 4) (AsSlice gw);
               Some (dat', True)
             })
          else rewriteGateway_loop dat gw (off + (2 + l))
        }
      })"
  by pat_completeness auto
termination
  by (relation "measure (\<lambda>(dat, gw, off). length dat - off)") auto

declare rewriteGateway_loop.simps [simp del]

definition rewriteGateway :: "bytes \<Rightarrow> Addr \<Rightarrow> (bytes \<times> bool) option" where
  \<comment> \<open>the packet after the in-place patch, and the code's result\<close>
  "rewriteGateway dat gw = rewriteGateway_loop dat gw dhcpOptionsOff"

section \<open>The walks meet the contract\<close>

definition parse_step :: "item \<Rightarrow> dhcpOption list \<Rightarrow> dhcpOption list" where
  "parse_step i out = (case i of Pad \<Rightarrow> out
     | Opt c p \<Rightarrow> out @ [\<lparr>opt_code = c, opt_data = p\<rparr>])"

interpretation parse: area_walk parseOptionArea_loop
  "\<lambda>d i off out. Inr (parse_step i out)"
  "\<lambda>d e off out. Some (case e of EndAt t \<Rightarrow> out | Malformed r \<Rightarrow> [])"
proof
  fix i off and d rest :: bytes and a
  assume wf: "wf_item i" and d: "drop off d = encode_item i @ rest"
  show "parseOptionArea_loop d off a =
     (case Inr (parse_step i a) of Inl r \<Rightarrow> r
      | Inr a' \<Rightarrow> parseOptionArea_loop d (off + length (encode_item i)) a')"
  proof (cases i)
    case Pad
    with at_Pad [of off d rest] d show ?thesis
      by (simp add: parse_step_def parseOptionArea_loop.simps [of d off])
  next
    case (Opt c p)
    note at = at_Opt [OF wf [unfolded Opt] d [unfolded Opt]]
    from Opt at show ?thesis
      by (simp add: Let_def parse_step_def parseOptionArea_loop.simps [of d off])
  qed
next
  fix e off and d :: bytes and a
  assume e: "stops e" and off: "off \<le> length d" and d: "drop off d = ending_bytes e"
  show "parseOptionArea_loop d off a = Some (case e of EndAt t \<Rightarrow> a | Malformed r \<Rightarrow> [])"
  proof (cases e)
    case (EndAt t)
    with at_End [of off d t] d show ?thesis
      by (simp add: parseOptionArea_loop.simps [of d off])
  next
    case (Malformed r)
    with e d have "stuck r" and "drop off d = r"
      by simp_all
    from this off show ?thesis
      by (cases rule: at_Malformed)
        (simp_all add: Let_def Malformed parseOptionArea_loop.simps [of d off]
          parseOptionArea_loop.simps [of d "length d"])
  qed
qed

definition insert_step :: "item \<Rightarrow> insert_scan option + unit" where
  "insert_step i = (case i of Pad \<Rightarrow> Inr ()
     | Opt c p \<Rightarrow> if c = dhcpOptAgentInfo then Inl (Some AlreadyRelayed) else Inr ())"

definition insert_end :: "ending \<Rightarrow> nat \<Rightarrow> insert_scan" where
  "insert_end e off = (case e of EndAt t \<Rightarrow> FoundEnd off
     | Malformed r \<Rightarrow> if r \<noteq> [] \<and> hd r = dhcpOptAgentInfo then AlreadyRelayed else NoEnd)"

interpretation insert82: area_walk "\<lambda>d off a. insertAgentInfo_loop d off"
  "\<lambda>d i off a. insert_step i" "\<lambda>d e off a. Some (insert_end e off)"
proof
  fix i off and d rest :: bytes and a :: unit
  assume wf: "wf_item i" and d: "drop off d = encode_item i @ rest"
  show "insertAgentInfo_loop d off =
     (case insert_step i of Inl r \<Rightarrow> r
      | Inr a' \<Rightarrow> insertAgentInfo_loop d (off + length (encode_item i)))"
  proof (cases i)
    case Pad
    with at_Pad [of off d rest] d show ?thesis
      by (simp add: insert_step_def insertAgentInfo_loop.simps [of d off])
  next
    case (Opt c p)
    note at = at_Opt [OF wf [unfolded Opt] d [unfolded Opt]]
    from Opt at show ?thesis
      by (simp add: Let_def insert_step_def insertAgentInfo_loop.simps [of d off])
  qed
next
  fix e off and d :: bytes and a :: unit
  assume e: "stops e" and off: "off \<le> length d" and d: "drop off d = ending_bytes e"
  show "insertAgentInfo_loop d off = Some (insert_end e off)"
  proof (cases e)
    case (EndAt t)
    with at_End [of off d t] d show ?thesis
      by (simp add: insertAgentInfo_loop.simps [of d off] insert_end_def)
  next
    case (Malformed r)
    with e d have "stuck r" and "drop off d = r"
      by simp_all
    from this off show ?thesis
      by (cases rule: at_Malformed)
        (simp_all add: Let_def Malformed insertAgentInfo_loop.simps [of d off]
          insertAgentInfo_loop.simps [of d "length d"] insert_end_def)
  qed
qed

definition strip_step :: "item \<Rightarrow> bytes \<Rightarrow> bytes" where
  "strip_step i out = (case i of Pad \<Rightarrow> out @ [0]
     | Opt c p \<Rightarrow> if c = dhcpOptAgentInfo then out else out @ encode_item i)"

interpretation strip: area_walk stripAgentInfo_loop
  "\<lambda>d i off out. Inr (strip_step i out)"
  "\<lambda>d e off out. Some (out @ ending_bytes (case e of EndAt t \<Rightarrow> e | Malformed r \<Rightarrow> EndAt []))"
proof
  fix i off and d rest :: bytes and a
  assume wf: "wf_item i" and d: "drop off d = encode_item i @ rest"
  show "stripAgentInfo_loop d off a =
     (case Inr (strip_step i a) of Inl r \<Rightarrow> r
      | Inr a' \<Rightarrow> stripAgentInfo_loop d (off + length (encode_item i)) a')"
  proof (cases i)
    case Pad
    with at_Pad [of off d rest] d show ?thesis
      by (simp add: strip_step_def stripAgentInfo_loop.simps [of d off])
  next
    case (Opt c p)
    note at = at_Opt [OF wf [unfolded Opt] d [unfolded Opt]]
    from Opt at show ?thesis
      by (simp add: Let_def strip_step_def stripAgentInfo_loop.simps [of d off])
  qed
next
  fix e off and d :: bytes and a
  assume e: "stops e" and off: "off \<le> length d" and d: "drop off d = ending_bytes e"
  show "stripAgentInfo_loop d off a =
     Some (a @ ending_bytes (case e of EndAt t \<Rightarrow> e | Malformed r \<Rightarrow> EndAt []))"
  proof (cases e)
    case (EndAt t)
    with at_End [of off d t] d show ?thesis
      by (simp add: stripAgentInfo_loop.simps [of d off])
  next
    case (Malformed r)
    with e d have "stuck r" and "drop off d = r"
      by simp_all
    from this off show ?thesis
      by (cases rule: at_Malformed)
        (simp_all add: Let_def Malformed stripAgentInfo_loop.simps [of d off]
          stripAgentInfo_loop.simps [of d "length d"])
  qed
qed

definition rewrite_step :: "Addr \<Rightarrow> bytes \<Rightarrow> item \<Rightarrow> nat \<Rightarrow> unit \<Rightarrow> (bytes \<times> bool) option + unit" where
  "rewrite_step gw d i off a = (case i of Pad \<Rightarrow> Inr ()
     | Opt c p \<Rightarrow> if c = dhcpOptRouter
         then Inl (if length p = 4
                   then map_option (\<lambda>d'. (d', True)) (put d (off + 2) (off + 6) (AsSlice gw))
                   else Some (d, False))
         else Inr ())"

interpretation rewrite_gw: area_walk "\<lambda>d off a. rewriteGateway_loop d gw off"
  "rewrite_step gw" "\<lambda>d e off a. Some (d, False)"
  for gw
proof
  fix i off and d rest :: bytes and a :: unit
  assume wf: "wf_item i" and d: "drop off d = encode_item i @ rest"
  show "rewriteGateway_loop d gw off =
     (case rewrite_step gw d i off a of Inl r \<Rightarrow> r
      | Inr a' \<Rightarrow> rewriteGateway_loop d gw (off + length (encode_item i)))"
  proof (cases i)
    case Pad
    with at_Pad [of off d rest] d show ?thesis
      by (simp add: rewrite_step_def rewriteGateway_loop.simps [of d gw off])
  next
    case (Opt c p)
    note at = at_Opt [OF wf [unfolded Opt] d [unfolded Opt]]
    from Opt at show ?thesis
      by (simp add: Let_def rewrite_step_def rewriteGateway_loop.simps [of d gw off] put_def)
  qed
next
  fix e off and d :: bytes and a :: unit
  assume e: "stops e" and off: "off \<le> length d" and d: "drop off d = ending_bytes e"
  show "rewriteGateway_loop d gw off = Some (d, False)"
  proof (cases e)
    case (EndAt t)
    with at_End [of off d t] d show ?thesis
      by (simp add: rewriteGateway_loop.simps [of d gw off])
  next
    case (Malformed r)
    with e d have "stuck r" and "drop off d = r"
      by simp_all
    from this off show ?thesis
      by (cases rule: at_Malformed)
        (simp_all add: Let_def Malformed rewriteGateway_loop.simps [of d gw off]
          rewriteGateway_loop.simps [of d gw "length d"]
          rewriteGateway_loop.simps [of d gw "Suc (Suc (off + unat (d ! Suc off)))"])
  qed
qed

section \<open>What each function computes, over the items of the area\<close>

definition options_of :: "item list \<Rightarrow> dhcpOption list" where
  "options_of its = concat (map (\<lambda>i. case i of Pad \<Rightarrow> []
     | Opt c p \<Rightarrow> [\<lparr>opt_code = c, opt_data = p\<rparr>]) its)"

definition area_items :: "bytes \<Rightarrow> item list" where
  "area_items dat = fst (read_area (drop dhcpOptionsOff dat))"

definition area_ending :: "bytes \<Rightarrow> ending" where
  "area_ending dat = snd (read_area (drop dhcpOptionsOff dat))"

lemma read_area_options [simp]:
  "read_area (drop 240 dat) = (area_items dat, area_ending dat)"
  by (simp add: area_items_def area_ending_def)

lemma area_split:
  assumes "240 \<le> length dat"
  shows "dat = take 240 dat @ encode_items (area_items dat) @ ending_bytes (area_ending dat)"
    and "list_all wf_item (area_items dat)" and "stops (area_ending dat)"
  using read_area_sound [of "drop 240 dat"]
  by (simp_all, metis append_take_drop_id)

lemma area_of_parts:
  assumes "length hdr = 240" and "list_all wf_item its" and "stops e"
  shows "area_items (hdr @ encode_items its @ ending_bytes e) = its"
    and "area_ending (hdr @ encode_items its @ ending_bytes e) = e"
  using assms by (simp_all add: area_items_def area_ending_def read_area_encode)

lemma run_parse:
  "run_items (\<lambda>i off out. Inr (parse_step i out)) fin its e off out =
   fin e (off + length (encode_items its)) (out @ options_of its)"
  by (induction its arbitrary: off out)
    (auto simp: parse_step_def options_of_def add.assoc split: item.splits)

lemma parseOptionArea_eq:
  "parseOptionArea area = Some (case read_area area of
     (its, EndAt t) \<Rightarrow> options_of its | (its, Malformed r) \<Rightarrow> [])"
proof -
  obtain its e where r: "read_area area = (its, e)" by fastforce
  then show ?thesis
    using parse.walk_run [of 0 area its e "[]"]
    by (simp add: parseOptionArea_def run_parse split: ending.splits)
qed

lemma run_insert:
  "run_items (\<lambda>i off a. insert_step i) fin its e off () =
     (if carries 82 its then Some AlreadyRelayed else fin e (off + length (encode_items its)) ())"
  by (induction its arbitrary: off)
    (auto simp: insert_step_def add.assoc carries_def split: item.splits)

lemma insertAgentInfo_loop_eq:
  assumes "240 \<le> length dat"
  shows "insertAgentInfo_loop dat 240 = Some
    (if carries 82 (area_items dat) then AlreadyRelayed
     else insert_end (area_ending dat) (240 + length (encode_items (area_items dat))))"
  using assms insert82.walk_run [of 240 dat "area_items dat" "area_ending dat" "()"]
  by (simp add: run_insert)

lemma run_strip:
  "run_items (\<lambda>i off out. Inr (strip_step i out)) fin its e off out =
   fin e (off + length (encode_items its)) (out @ encode_items (without 82 its))"
  by (induction its arbitrary: off out)
    (auto simp: strip_step_def add.assoc split: item.splits)

definition closed_ending :: "ending \<Rightarrow> ending" where
  "closed_ending e = (case e of EndAt t \<Rightarrow> e | Malformed r \<Rightarrow> EndAt [])"

lemma stripAgentInfo_eq:
  assumes "240 \<le> length dat"
  shows "stripAgentInfo dat = Some (take 240 dat @ encode_items (without 82 (area_items dat)) @
    ending_bytes (closed_ending (area_ending dat)))"
  using assms strip.walk_run [of 240 dat "area_items dat" "area_ending dat" "take 240 dat"]
  by (simp add: stripAgentInfo_def run_strip closed_ending_def)

fun replace_router :: "bytes \<Rightarrow> item list \<Rightarrow> item list option" where
  \<comment> \<open>the items with the payload of the first router option replaced, if it has 4 bytes\<close>
  "replace_router gw [] = None"
| "replace_router gw (Pad # its) = map_option ((#) Pad) (replace_router gw its)"
| "replace_router gw (Opt c p # its) =
     (if c = 3 then (if length p = 4 then Some (Opt 3 gw # its) else None)
      else map_option ((#) (Opt c p)) (replace_router gw its))"

lemma run_rewrite:
  assumes "Is4 gw" and "list_all wf_item its"
    and "d = pre @ encode_items its @ rest" and "off = length pre"
  shows "run_items (rewrite_step gw d) (\<lambda>e off a. Some (d, False)) its e off () =
     Some (case replace_router (AsSlice gw) its of
        None \<Rightarrow> (d, False) | Some its' \<Rightarrow> (pre @ encode_items its' @ rest, True))"
  using assms
proof (induction its arbitrary: off pre)
  case Nil
  then show ?case by simp
next
  case (Cons i its)
  show ?case
  proof (cases i)
    case Pad
    with Cons.prems Cons.IH [of "pre @ [0]" "Suc off"] show ?thesis
      by (simp add: rewrite_step_def split: option.splits)
  next
    case (Opt c p)
    show ?thesis
    proof (cases "c = 3")
      case False
      with Opt Cons.prems Cons.IH [of "pre @ encode_item i" "off + length (encode_item i)"]
      show ?thesis
        by (simp add: rewrite_step_def split: option.splits)
    next
      case True
      with Opt Cons.prems show ?thesis
        by (simp add: rewrite_step_def put_def length_AsSlice_Is4)
    qed
  qed
qed

lemma rewriteGateway_eq:
  assumes "240 \<le> length dat" and "Is4 gw"
  shows "rewriteGateway dat gw = Some
    (case replace_router (AsSlice gw) (area_items dat) of
       None \<Rightarrow> (dat, False)
     | Some its' \<Rightarrow> (take 240 dat @ encode_items its' @ ending_bytes (area_ending dat), True))"
proof -
  have "rewriteGateway dat gw =
      run_items (rewrite_step gw dat) (\<lambda>e off a. Some (dat, False)) (area_items dat)
        (area_ending dat) 240 ()"
    using assms rewrite_gw.walk_run [of 240 dat "area_items dat" "area_ending dat" gw "()"]
    by (simp add: rewriteGateway_def)
  also have "\<dots> = Some (case replace_router (AsSlice gw) (area_items dat) of
       None \<Rightarrow> (dat, False)
     | Some its' \<Rightarrow> (take 240 dat @ encode_items its' @ ending_bytes (area_ending dat), True))"
    using assms area_split [OF assms(1)] by (intro run_rewrite) simp_all
  finally show ?thesis .
qed

definition agent_item :: "int \<Rightarrow> item" where
  "agent_item ifindex =
     Opt dhcpOptAgentInfo ([agentSubOptCircuitID, 4] @ le_PutUint32 (word_of_int ifindex))"

lemma encode_agent_item: "encode_item (agent_item i) = agentInfoOption i"
  by (simp add: agent_item_def agentInfoOption_def)

lemma wf_agent_item: "wf_item (agent_item i)"
  by (simp add: agent_item_def)

lemma insertAgentInfo_eq:
  assumes "240 \<le> length dat"
  shows "insertAgentInfo dat i = Some
    (if carries 82 (area_items dat) then (dat, True)
     else case area_ending dat of
       EndAt t \<Rightarrow>
         if 1400 < length dat + 8 then ([], False)
         else (take 240 dat @ encode_items (area_items dat @ [agent_item i]) @ 255 # t, True)
     | Malformed r \<Rightarrow> if r \<noteq> [] \<and> hd r = 82 then (dat, True) else ([], False))"
proof (cases "\<not> carries 82 (area_items dat) \<and> (\<exists>t. area_ending dat = EndAt t)")
  case True
  then obtain t where e: "area_ending dat = EndAt t" and c: "\<not> carries 82 (area_items dat)"
    by blast
  define hdr where "hdr = take 240 dat"
  define pre where "pre = hdr @ encode_items (area_items dat)"
  have dat: "dat = pre @ 255 # t"
    using area_split(1) [OF assms] e by (simp add: hdr_def pre_def)
  have "length hdr = 240"
    using assms by (simp add: hdr_def)
  then have off: "240 + length (encode_items (area_items dat)) = length pre"
    by (simp add: pre_def)
  have "insertAgentInfo_loop dat 240 = Some (FoundEnd (length pre))"
    using insertAgentInfo_loop_eq [OF assms] e c off by (simp add: insert_end_def)
  moreover have "slc dat 0 (length pre) = Some pre"
    "slc dat (length pre) (length dat) = Some (255 # t)"
    by (simp_all add: dat)
  ultimately show ?thesis
    using e c by (simp add: insertAgentInfo_def encode_agent_item pre_def hdr_def)
next
  case False
  then show ?thesis
    using insertAgentInfo_loop_eq [OF assms]
    by (auto simp: insertAgentInfo_def insert_end_def split: ending.splits)
qed

lemma appendField_eq:
  assumes "off + sz \<le> length dat"
  shows "appendField dat off sz out = Some (out @ the (parseOptionArea (take sz (drop off dat))))"
  using assms by (simp add: appendField_def parseOptionArea_eq)

lemma parseDHCPOptions_total:
  assumes "240 \<le> length dat"
  shows "\<exists>out. parseDHCPOptions dat = Some out"
  using assms by (simp add: parseDHCPOptions_def parseOptionArea_eq appendField_eq
      split: prod.splits)

lemma parseCircuitID_loop_total: "parseCircuitID_loop info off \<noteq> None"
proof (induction info off rule: parseCircuitID_loop.induct)
  case (1 info off)
  then show ?case
    by (auto simp: parseCircuitID_loop.simps [of info off] Let_def)
qed

lemma parseCircuitID_total: "\<exists>i ok. parseCircuitID info = Some (i, ok)"
  using parseCircuitID_loop_total [of info 0] by (auto simp: parseCircuitID_def)

section \<open>Round trips\<close>

lemma sint_word_of_int_32:
  "- (2 ^ 31) \<le> i \<Longrightarrow> i < 2 ^ 31 \<Longrightarrow> sint (word_of_int i :: 32 word) = i"
  by (simp add: sint_uint unsigned_of_int signed_take_bit_take_bit signed_take_bit_int_eq_self)

definition encode_sub :: "byte \<times> bytes \<Rightarrow> bytes" where
  "encode_sub = (\<lambda>(s, p). s # of_nat (length p) # p)"

definition other_sub :: "byte \<times> bytes \<Rightarrow> bool" where
  "other_sub = (\<lambda>(s, p). length p < 256 \<and> \<not> (s = agentSubOptCircuitID \<and> length p = 4))"

lemma parseCircuitID_loop_skip:
  assumes "other_sub sp" and "drop off info = encode_sub sp @ rest" and "off \<le> length info"
  shows "parseCircuitID_loop info off = parseCircuitID_loop info (off + length (encode_sub sp))"
proof -
  obtain s p where sp: "sp = (s, p)" by fastforce
  have a: "drop off info = s # of_nat (length p) # p @ rest"
    using assms sp by (simp add: encode_sub_def)
  have b: "off < length info \<and> info ! off = s \<and> drop (Suc off) info = of_nat (length p) # p @ rest"
    by (rule drop_eq_ConsD [OF a])
  then have c: "Suc off < length info \<and> info ! Suc off = of_nat (length p) \<and>
      drop (Suc (Suc off)) info = p @ rest"
    using drop_eq_ConsD [of "Suc off" info "of_nat (length p)" "p @ rest"] by simp
  have "length (drop off info) = Suc (Suc (length p + length rest))"
    by (simp only: a length_Cons length_append)
  then have "off + 2 + length p \<le> length info"
    using b by simp
  moreover have "info ! off = s" "unat (info ! Suc off) = length p"
    "s = 1 \<longrightarrow> length p \<noteq> 4" "length (encode_sub sp) = length p + 2"
    using b c assms(1) sp by (simp_all add: other_sub_def encode_sub_def)
  ultimately show ?thesis
    by (auto simp: parseCircuitID_loop.simps [of info off] Let_def)
qed

lemma parseCircuitID_loop_found:
  assumes "drop off info = [agentSubOptCircuitID, 4] @ le_PutUint32 v @ rest" "off \<le> length info"
  shows "parseCircuitID_loop info off = Some (sint v, True)"
proof -
  obtain b0 b1 b2 b3 where v: "le_PutUint32 v = [b0, b1, b2, b3]"
    by (simp add: le_PutUint32_def)
  have a: "drop off info = [1, 4] @ [b0, b1, b2, b3] @ rest"
    using assms v by simp
  have i: "drop (off + 2) info = [b0, b1, b2, b3] @ rest"
    using a drop_eq_appendD [of off info "[1, 4]"] assms(2) by simp
  have l: "off + 6 \<le> length info"
    using arg_cong [OF a, of length] by simp
  have "info ! off = 1" "info ! Suc off = 4"
    using drop_eq_ConsD [of off info 1] drop_eq_ConsD [of "Suc off" info 4] a by simp_all
  moreover have "take 4 (drop (off + 2) info) = [b0, b1, b2, b3]"
    using i by simp
  ultimately show ?thesis
    using l le_Uint32_PutUint32 [OF v]
    by (simp add: parseCircuitID_loop.simps [of info off] Let_def)
qed

lemma parseCircuitID_encoded:
  assumes "list_all other_sub subs"
  shows "parseCircuitID (concat (map encode_sub subs) @ [agentSubOptCircuitID, 4] @
     le_PutUint32 v @ rest) = Some (sint v, True)"
proof -
  let ?tail = "[agentSubOptCircuitID, 4] @ le_PutUint32 v @ rest"
  have "parseCircuitID_loop info off = Some (sint v, True)"
    if "drop off info = concat (map encode_sub subs) @ ?tail" and "off \<le> length info"
    for info off
    using assms that
  proof (induction subs arbitrary: off)
    case Nil
    then show ?case using parseCircuitID_loop_found by simp
  next
    case (Cons sp subs)
    let ?off = "off + length (encode_sub sp)"
    have d: "drop off info = encode_sub sp @ (concat (map encode_sub subs) @ ?tail)"
      using Cons.prems by simp
    have "?off \<le> length info \<and> drop ?off info = concat (map encode_sub subs) @ ?tail"
      using drop_eq_appendD [OF d] Cons.prems by blast
    with Cons parseCircuitID_loop_skip [OF _ d] show ?case
      by simp
  qed
  then show ?thesis
    by (simp add: parseCircuitID_def)
qed


lemma take_options_off [simp]: "240 \<le> length dat \<Longrightarrow> length (take 240 dat) = 240"
  by simp

lemma area_of_insert:
  assumes "240 \<le> length dat" and "insertAgentInfo dat i = Some (out, True)"
    and "\<not> carries 82 (area_items dat)" and "area_ending dat = EndAt t"
  shows "out = take 240 dat @ encode_items (area_items dat @ [agent_item i]) @ ending_bytes (EndAt t)"
    and "area_items out = area_items dat @ [agent_item i]" and "area_ending out = EndAt t"
proof -
  show out: "out = take 240 dat @ encode_items (area_items dat @ [agent_item i]) @
      ending_bytes (EndAt t)"
    using assms insertAgentInfo_eq [of dat i] by (simp split: if_splits)
  show "area_items out = area_items dat @ [agent_item i]" "area_ending out = EndAt t"
    unfolding out using area_of_parts [of "take 240 dat" "area_items dat @ [agent_item i]" "EndAt t"]
      assms area_split(2) [OF assms(1)] wf_agent_item by simp_all
qed

lemma strip_insert_roundtrip:
  assumes "240 \<le> length dat" and "insertAgentInfo dat i = Some (out, True)"
    and "\<not> carries 82 (area_items dat)" and "area_ending dat = EndAt t"
  shows "stripAgentInfo out = Some dat"
proof -
  note out = area_of_insert [OF assms]
  have "240 \<le> length out" and h: "take 240 out = take 240 dat"
    using assms(1) by (simp_all add: out(1))
  then have "stripAgentInfo out = Some (take 240 dat @ encode_items (area_items dat) @ 255 # t)"
    using stripAgentInfo_eq [of out]
    by (simp add: out(2,3) without_id assms(3) closed_ending_def agent_item_def)
  also have "take 240 dat @ encode_items (area_items dat) @ 255 # t = dat"
    using area_split(1) [OF assms(1)] assms(4) by simp
  finally show ?thesis .
qed

lemma insert_length:
  assumes "240 \<le> length dat" and "insertAgentInfo dat i = Some (out, True)" and "out \<noteq> dat"
  shows "length out = length dat + 8 \<and> length out \<le> 1400"
proof -
  from assms insertAgentInfo_eq [OF assms(1), of i]
  obtain t where e: "area_ending dat = EndAt t"
    and out: "out = take 240 dat @ encode_items (area_items dat @ [agent_item i]) @ 255 # t"
    and l: "length dat + 8 \<le> 1400"
    by (auto split: if_splits ending.splits)
  have "length dat = 240 + (length (encode_items (area_items dat)) + Suc (length t))"
    using arg_cong [OF area_split(1) [OF assms(1)], of length] e assms(1) by simp
  moreover have "length out = 240 + (length (encode_items (area_items dat)) + (8 + Suc (length t)))"
    using assms(1) by (simp add: out agent_item_def)
  ultimately show ?thesis
    using l by simp
qed

lemma strip_items:
  assumes "240 \<le> length dat" and "stripAgentInfo dat = Some out"
  shows "take 240 out = take 240 dat" and "area_items out = without 82 (area_items dat)"
    and "area_ending out = closed_ending (area_ending dat)"
    and "length out \<le> length dat + 1"
proof -
  let ?e = "closed_ending (area_ending dat)"
  have out: "out = take 240 dat @ encode_items (without 82 (area_items dat)) @ ending_bytes ?e"
    using assms stripAgentInfo_eq by simp
  have "stops ?e"
    by (simp add: closed_ending_def split: ending.splits)
  then show "area_items out = without 82 (area_items dat)" "area_ending out = ?e"
    unfolding out using area_of_parts [of "take 240 dat" "without 82 (area_items dat)" ?e]
      assms(1) without_wf area_split(2) [OF assms(1)] by simp_all
  show "take 240 out = take 240 dat"
    using assms(1) by (simp add: out)
  have "length (ending_bytes ?e) \<le> length (ending_bytes (area_ending dat)) + 1"
    by (simp add: closed_ending_def split: ending.splits)
  moreover have "length dat = 240 + (length (encode_items (area_items dat)) +
      length (ending_bytes (area_ending dat)))"
    using arg_cong [OF area_split(1) [OF assms(1)], of length] assms(1) by simp
  ultimately show "length out \<le> length dat + 1"
    using length_without [of 82 "area_items dat"] assms(1) by (simp add: out)
qed

lemma replace_router_wf:
  "replace_router gw its = Some its' \<Longrightarrow> length gw = 4 \<Longrightarrow> list_all wf_item its \<Longrightarrow>
   list_all wf_item its' \<and> length (encode_items its') = length (encode_items its)"
  by (induction gw its arbitrary: its' rule: replace_router.induct) (auto split: if_splits)

end
