(* ===== verification/Arp.thy ===== *)
theory Arp
  imports Iface
begin

text \<open>
  Proxy ARP (\<open>internal/relay/arp.go\<close>): the \<open>proxy_arp\<close> sysctl, the proxy neighbour entries on the
  master interfaces, the /32 host routes, and the real neighbour entries. Every operation only
  issues kernel calls. \<open>arpMirrorAddr\<close> is related to its abstract effect: it adds to, or removes
  from, the requested proxy entries the pairs of the address with every other relaying master,
  and the host route of the interface itself when it learns routes.

  Log messages are left out of the operations; they read no state and change none.
\<close>

section \<open>The operations\<close>

definition ascii_space :: "byte \<Rightarrow> bool" where
  "ascii_space b \<longleftrightarrow> b \<in> {9, 10, 11, 12, 13, 32}"

definition TrimSpace :: "bytes \<Rightarrow> bytes" where
  \<comment> \<open>\<open>bytes.TrimSpace\<close> on ASCII content, which is what sysctl files hold\<close>
  "TrimSpace bs = rev (dropWhile ascii_space (rev (dropWhile ascii_space bs)))"

definition proxy_arp_path :: "string \<Rightarrow> string" where
  "proxy_arp_path ifname = ''/proc/sys/net/ipv4/conf/'' @ ifname @ ''/proxy_arp''"

definition setProxyARP :: "env \<Rightarrow> string \<Rightarrow> bool \<Rightarrow> state \<Rightarrow> errno option \<times> state" where
  "setProxyARP E ifname enable s =
     (let path = proxy_arp_path ifname;
          want = (if enable then 49 else 48);
          cur = ans_readFile E (trace s) path;
          s1 = issue (ReadFile path) s
      in if (case cur of Inr b \<Rightarrow> TrimSpace b = [want] | Inl e \<Rightarrow> False)
         then (None, s1)
         else perform E (WriteFile path [want, 10]) s1)"

definition arpSetup :: "env \<Rightarrow> iref \<Rightarrow> bool \<Rightarrow> state \<Rightarrow> errno option \<times> state" where
  "arpSetup E r enable s =
     setProxyARP E (Ifname (heap s r)) (enable \<and> ARP (heap s r) \<noteq> ModeDisabled) s"

definition ourRouteMetric :: int where [simp]: "ourRouteMetric = 1024"

definition hostNet :: "Addr \<Rightarrow> IPNet" where
  "hostNet a = \<lparr>net_IP = AsSlice a, net_Mask = CIDRMask32\<rparr>"

definition hostRoute4 :: "Addr \<Rightarrow> int \<Rightarrow> int \<Rightarrow> int \<Rightarrow> Route" where
  "hostRoute4 a ifindex metric proto =
     \<lparr>r_LinkIndex = ifindex, r_Dst = Some (hostNet a), r_Priority = metric,
      r_Table = RT_TABLE_MAIN, r_Scope = SCOPE_LINK, r_Protocol = proto\<rparr>"

definition setupRoute4 :: "env \<Rightarrow> Addr \<Rightarrow> int \<Rightarrow> int \<Rightarrow> bool \<Rightarrow> state \<Rightarrow> errno option \<times> state" where
  \<comment> \<open>the code's \<open>prefixlen\<close> is 32 at its only call site\<close>
  "setupRoute4 E a ifindex metric add s =
     (if add then perform E (RouteReplace (hostRoute4 a ifindex metric RTPROT_STATIC)) s
      else (case perform E (RouteDel (hostRoute4 a ifindex metric 0)) s of
        (err, s') \<Rightarrow> (if err = Some ESRCH then None else err, s')))"

definition neigh4 :: "Addr \<Rightarrow> int \<Rightarrow> int \<Rightarrow> int \<Rightarrow> bytes \<Rightarrow> Neigh" where
  "neigh4 a ifindex st flags mac =
     \<lparr>n_LinkIndex = ifindex, n_Family = AF_INET, n_State = st, n_Flags = flags,
      n_IP = AsSlice a, n_HardwareAddr = mac\<rparr>"

definition already_gone :: "errno option \<Rightarrow> errno option" where
  "already_gone err = (if err = Some ENOENT \<or> err = Some ESRCH then None else err)"

definition setupProxyNeigh4 :: "env \<Rightarrow> Addr \<Rightarrow> int \<Rightarrow> bool \<Rightarrow> state \<Rightarrow> errno option \<times> state" where
  "setupProxyNeigh4 E a ifindex add s =
     (let n = neigh4 a ifindex 0 NTF_PROXY []
      in if add then perform E (NeighSet n) s
         else (case perform E (NeighDel n) s of (err, s') \<Rightarrow> (already_gone err, s')))"

definition arpMirrorMaster :: "env \<Rightarrow> Addr \<Rightarrow> iref \<Rightarrow> bool \<Rightarrow> iref \<Rightarrow> state \<Rightarrow> state" where
  \<comment> \<open>the body of the loop of \<open>arpMirrorAddr\<close>\<close>
  "arpMirrorMaster E a r add c s =
     (if Ifindex (heap s c) = Ifindex (heap s r) \<or> \<not> Master (heap s c) \<or> ARP (heap s c) \<noteq> ModeRelay
      then s
      else (let s1 = (if add then snd (setProxyARP E (Ifname (heap s c)) True s) else s)
            in snd (setupProxyNeigh4 E a (Ifindex (heap s c)) add s1)))"

definition arpMirrorAddr :: "env \<Rightarrow> Addr \<Rightarrow> iref \<Rightarrow> bool \<Rightarrow> state \<Rightarrow> state" where
  "arpMirrorAddr E a r add s =
     (let s1 = fold (arpMirrorMaster E a r add) (iface_refs s) s
      in if \<not> LearnRoutes (heap s r) \<or> IsLinkLocalUnicast a then s1
         else snd (setupRoute4 E a (Ifindex (heap s r)) ourRouteMetric add s1))"

definition seedNeighbor4 :: "env \<Rightarrow> Addr \<Rightarrow> bytes \<Rightarrow> int \<Rightarrow> state \<Rightarrow> state" where
  "seedNeighbor4 E a mac ifindex s =
     snd (perform E (NeighSet (neigh4 a ifindex NUD_REACHABLE 0 mac)) s)"

definition deleteNeigh4 :: "env \<Rightarrow> Addr \<Rightarrow> int \<Rightarrow> state \<Rightarrow> state" where
  "deleteNeigh4 E a ifindex s = snd (perform E (NeighDel (neigh4 a ifindex 0 0 [])) s)"

section \<open>The operations only issue calls\<close>

text \<open>
  The contract the operations of this theory share: such an operation changes nothing of the
  state but the trace, which it extends. The frame of each operation follows by interpretation.
\<close>

locale call_op =
  fixes f :: "state \<Rightarrow> state"
  assumes only_calls: "\<exists>cs. f s = s\<lparr>trace := trace s @ cs\<rparr>"
begin

lemma only_callsE:
  obtains cs where "f s = s\<lparr>trace := trace s @ cs\<rparr>"
  using only_calls by blast

lemma frame [simp]:
  "heap (f s) = heap s" "nextRef (f s) = nextRef s" "interfaces (f s) = interfaces s"
  "nextSock (f s) = nextSock s" "mirroredNeighs (f s) = mirroredNeighs s"
  "reconcileScheduled (f s) = reconcileScheduled s"
  "staleClientSweepInterval (f s) = staleClientSweepInterval s"
  "mirrorSweepDone (f s) = mirrorSweepDone s" "mirrorSweepOnce (f s) = mirrorSweepOnce s"
  "logLevel (f s) = logLevel s" "timers (f s) = timers s" "iface_refs (f s) = iface_refs s"
  by (rule only_callsE [of s], simp add: iface_refs_def)+

lemma trace_grows: "\<exists>cs. trace (f s) = trace s @ cs"
  by (rule only_callsE [of s]) simp

end

lemma call_op_id: "call_op (\<lambda>s. s)"
proof
  fix s :: state
  have "s = s\<lparr>trace := trace s @ []\<rparr>" by simp
  then show "\<exists>cs. s = s\<lparr>trace := trace s @ cs\<rparr>" by blast
qed

lemma call_op_issue: "call_op (issue c)"
  by unfold_locales (rule exI [of _ "[c]"], simp add: issue_def)

lemma call_op_comp:
  assumes "call_op f" and "call_op g"
  shows "call_op (\<lambda>s. g (f s))"
proof
  fix s
  obtain cs where f: "f s = s\<lparr>trace := trace s @ cs\<rparr>"
    using assms(1) by (rule call_op.only_callsE)
  obtain ds where "g (f s) = (f s)\<lparr>trace := trace (f s) @ ds\<rparr>"
    using assms(2) by (rule call_op.only_callsE)
  with f have "g (f s) = s\<lparr>trace := trace s @ (cs @ ds)\<rparr>"
    by simp
  then show "\<exists>cs. g (f s) = s\<lparr>trace := trace s @ cs\<rparr>"
    by blast
qed

text \<open>An operation that picks one of several call operations by the state it starts in.\<close>

lemma call_op_choice:
  assumes "\<And>s. call_op (g s)" and "\<And>s. f s = g s s"
  shows "call_op f"
proof
  fix s
  show "\<exists>cs. f s = s\<lparr>trace := trace s @ cs\<rparr>"
    using assms(1) [of s] assms(2) [of s] call_op.only_calls by simp
qed

lemma call_op_if: "call_op f \<Longrightarrow> call_op g \<Longrightarrow> call_op (if b then f else g)"
  by simp

lemma call_op_fold: "(\<And>x. call_op (f x)) \<Longrightarrow> call_op (fold f xs)"
proof (induction xs)
  case Nil
  then show ?case using call_op_id by (simp add: id_def)
next
  case (Cons x xs)
  then show ?case
    using call_op_comp [of "f x" "fold f xs"] by (simp add: comp_def)
qed

lemma snd_perform [simp]: "snd (perform E c s) = issue c s"
  by (simp add: perform_def)

interpretation issue: call_op "issue c" for c
  by (rule call_op_issue)

interpretation setProxyARP: call_op "\<lambda>s. snd (setProxyARP E n b s)" for E n b
proof (rule call_op_choice)
  let ?w = "if b then 49 else 48 :: byte" and ?p = "proxy_arp_path n"
  let ?g = "\<lambda>s. if (case ans_readFile E (trace s) ?p of
      Inr c \<Rightarrow> TrimSpace c = [?w] | Inl e \<Rightarrow> False)
    then issue (ReadFile ?p) else (\<lambda>s. issue (WriteFile ?p [?w, 10]) (issue (ReadFile ?p) s))"
  show "call_op (?g s)" for s
    by (intro call_op_if call_op_issue call_op_comp [OF call_op_issue call_op_issue])
  show "snd (setProxyARP E n b s) = ?g s s" for s
    by (simp add: setProxyARP_def Let_def)
qed

interpretation arpSetup: call_op "\<lambda>s. snd (arpSetup E r b s)" for E r b
  by (rule call_op_choice [OF setProxyARP.call_op_axioms]) (simp add: arpSetup_def)

interpretation setupProxyNeigh4: call_op "\<lambda>s. snd (setupProxyNeigh4 E a i b s)" for E a i b
  by (rule call_op_choice [of "\<lambda>s. issue (if b then NeighSet (neigh4 a i 0 NTF_PROXY [])
        else NeighDel (neigh4 a i 0 NTF_PROXY []))"])
    (simp_all add: call_op_issue setupProxyNeigh4_def perform_def Let_def)

interpretation setupRoute4: call_op "\<lambda>s. snd (setupRoute4 E a i m b s)" for E a i m b
  by (rule call_op_choice [of "\<lambda>s. issue (if b then RouteReplace (hostRoute4 a i m RTPROT_STATIC)
        else RouteDel (hostRoute4 a i m 0))"])
    (simp_all add: call_op_issue setupRoute4_def perform_def)

interpretation arpMirrorMaster: call_op "arpMirrorMaster E a r add c" for E a r add c
proof (rule call_op_choice)
  let ?h = "\<lambda>s. if add then (\<lambda>s'. snd (setProxyARP E (Ifname (heap s c)) True s')) else (\<lambda>s'. s')"
  let ?g = "\<lambda>s. if Ifindex (heap s c) = Ifindex (heap s r) \<or> \<not> Master (heap s c) \<or>
      ARP (heap s c) \<noteq> ModeRelay then (\<lambda>s'. s')
    else (\<lambda>s'. snd (setupProxyNeigh4 E a (Ifindex (heap s c)) add (?h s s')))"
  show "call_op (?g s)" for s
    by (intro call_op_if call_op_id call_op_comp [OF _ setupProxyNeigh4.call_op_axioms]
        setProxyARP.call_op_axioms)
  show "arpMirrorMaster E a r add c s = ?g s s" for s
    by (simp add: arpMirrorMaster_def Let_def)
qed

interpretation arpMirrorAddr: call_op "arpMirrorAddr E a r add" for E a r add
proof (rule call_op_choice)
  let ?m = "\<lambda>s. fold (arpMirrorMaster E a r add) (iface_refs s)"
  let ?g = "\<lambda>s. if \<not> LearnRoutes (heap s r) \<or> IsLinkLocalUnicast a then ?m s
    else (\<lambda>s'. snd (setupRoute4 E a (Ifindex (heap s r)) ourRouteMetric add (?m s s')))"
  show "call_op (?g s)" for s
    by (intro call_op_if call_op_comp [OF _ setupRoute4.call_op_axioms] call_op_fold
        arpMirrorMaster.call_op_axioms)
  show "arpMirrorAddr E a r add s = ?g s s" for s
    by (simp add: arpMirrorAddr_def Let_def)
qed

interpretation seedNeighbor4: call_op "seedNeighbor4 E a mac i" for E a mac i
  by (rule call_op_choice [OF call_op_issue]) (simp add: seedNeighbor4_def)

interpretation deleteNeigh4: call_op "deleteNeigh4 E a i" for E a i
  by (rule call_op_choice [OF call_op_issue]) (simp add: deleteNeigh4_def)

section \<open>The mirror operations against their abstract effect\<close>

definition relays_for :: "state \<Rightarrow> iref \<Rightarrow> iref \<Rightarrow> bool" where
  "relays_for s r c \<longleftrightarrow> Ifindex (heap s c) \<noteq> Ifindex (heap s r) \<and> Master (heap s c) \<and>
     ARP (heap s c) = ModeRelay"

definition mirror_entries :: "state \<Rightarrow> iref \<Rightarrow> Addr \<Rightarrow> iref list \<Rightarrow> (bytes \<times> int) set" where
  "mirror_entries s r a cs =
     set (map (\<lambda>c. (AsSlice a, Ifindex (heap s c))) (filter (relays_for s r) cs))"

lemma mirror_entries_simps [simp]:
  "mirror_entries s r a [] = {}"
  "mirror_entries s r a (c # cs) =
     (if relays_for s r c then insert (AsSlice a, Ifindex (heap s c)) (mirror_entries s r a cs)
      else mirror_entries s r a cs)"
  by (simp_all add: mirror_entries_def)

lemma mirror_entries_heap: "heap s = heap t \<Longrightarrow> mirror_entries s = mirror_entries t"
  by (intro ext) (simp add: mirror_entries_def relays_for_def)

lemma requests_setProxyARP [simp, trace_simps]:
  "proxies (trace (snd (setProxyARP E n b s))) = proxies (trace s)"
  "routes (trace (snd (setProxyARP E n b s))) = routes (trace s)"
  by (simp_all add: setProxyARP_def Let_def)

lemma requests_setupProxyNeigh4 [simp, trace_simps]:
  "proxies (trace (snd (setupProxyNeigh4 E a i add s))) =
     (if add then insert (AsSlice a, i) (proxies (trace s)) else proxies (trace s) - {(AsSlice a, i)})"
  "routes (trace (snd (setupProxyNeigh4 E a i add s))) = routes (trace s)"
  by (simp_all add: setupProxyNeigh4_def perform_def neigh4_def Let_def)

lemma requests_setupRoute4 [simp, trace_simps]:
  "proxies (trace (snd (setupRoute4 E a i m add s))) = proxies (trace s)"
  "routes (trace (snd (setupRoute4 E a i m add s))) =
     (if add then insert (hostNet a, i) (routes (trace s)) else routes (trace s) - {(hostNet a, i)})"
  by (simp_all add: setupRoute4_def perform_def hostRoute4_def)

lemma requests_arpMirrorMaster:
  "proxies (trace (arpMirrorMaster E a r add c s)) =
     (if \<not> relays_for s r c then proxies (trace s)
      else if add then insert (AsSlice a, Ifindex (heap s c)) (proxies (trace s))
      else proxies (trace s) - {(AsSlice a, Ifindex (heap s c))})"
  "routes (trace (arpMirrorMaster E a r add c s)) = routes (trace s)"
  by (auto simp: arpMirrorMaster_def relays_for_def Let_def)

lemma requests_mirror_loop:
  "proxies (trace (fold (arpMirrorMaster E a r add) cs s)) =
     (if add then proxies (trace s) \<union> mirror_entries s r a cs
      else proxies (trace s) - mirror_entries s r a cs) \<and>
   routes (trace (fold (arpMirrorMaster E a r add) cs s)) = routes (trace s)"
proof (induction cs arbitrary: s)
  case Nil
  then show ?case by simp
next
  case (Cons c cs)
  let ?s = "arpMirrorMaster E a r add c s"
  have "mirror_entries ?s r a cs = mirror_entries s r a cs"
    using mirror_entries_heap [of ?s s] by simp
  with Cons [of ?s] show ?case
    by (auto simp: requests_arpMirrorMaster)
qed

lemma arpMirrorAddr_requests:
  "proxies (trace (arpMirrorAddr E a r add s)) =
     (if add then proxies (trace s) \<union> mirror_entries s r a (iface_refs s)
      else proxies (trace s) - mirror_entries s r a (iface_refs s))"
  "routes (trace (arpMirrorAddr E a r add s)) =
     (if \<not> LearnRoutes (heap s r) \<or> IsLinkLocalUnicast a then routes (trace s)
      else if add then insert (hostNet a, Ifindex (heap s r)) (routes (trace s))
      else routes (trace s) - {(hostNet a, Ifindex (heap s r))})"
  using requests_mirror_loop [of E a r add "iface_refs s" s]
  by (cases add; simp add: arpMirrorAddr_def Let_def)+

lemma requests_real_neigh [simp, trace_simps]:
  "proxies (trace (seedNeighbor4 E a mac i s)) = proxies (trace s)"
  "routes (trace (seedNeighbor4 E a mac i s)) = routes (trace s)"
  "proxies (trace (deleteNeigh4 E a i s)) = proxies (trace s)"
  "routes (trace (deleteNeigh4 E a i s)) = routes (trace s)"
  by (simp_all add: seedNeighbor4_def deleteNeigh4_def neigh4_def)

end
