(* ===== verification/Samples.thy ===== *)
theory Samples
  imports Iface
begin

text \<open>
  Concrete inputs for the witnesses: the header of a DHCP packet, and a small running daemon with a
  LAN interface (slave, index 2) and a WAN interface (master, index 3), each with a socket.
\<close>

definition sample_header :: "byte \<Rightarrow> bytes" where
  "sample_header op = [op, 1, 6, 0] @ replicate 232 0 @ [99, 130, 83, 99]"

definition sample_lan :: Interface where
  "sample_lan = \<lparr>Name = ''lan'', Ifname = ''eth1'', Ifindex = 2, Running = True, Master = False,
     LearnRoutes = True, Inuse = True,
     Addr4s = [\<lparr>ip_Addr = Addr4 192 168 1 1, ip_PrefixLen = 24, ip_Tentative = False\<rparr>],
     DHCPv4 = ModeRelay, ARP = ModeRelay, dhcp = [\<lparr>ds_id = 0, ds_fd = 5, ds_iface = 0\<rparr>]\<rparr>"

definition sample_wan :: Interface where
  "sample_wan = \<lparr>Name = ''wan'', Ifname = ''eth0'', Ifindex = 3, Running = True, Master = True,
     LearnRoutes = True, Inuse = True,
     Addr4s = [\<lparr>ip_Addr = Addr4 10 0 0 2, ip_PrefixLen = 24, ip_Tentative = False\<rparr>],
     DHCPv4 = ModeRelay, ARP = ModeRelay, dhcp = [\<lparr>ds_id = 1, ds_fd = 6, ds_iface = 1\<rparr>]\<rparr>"

definition sample_state :: state where
  "sample_state = \<lparr>heap = (\<lambda>r. if r = 0 then sample_lan else if r = 1 then sample_wan else new_Interface ''''),
     nextRef = 2, interfaces = [(''lan'', 0), (''wan'', 1)], nextSock = 2, mirroredNeighs = [],
     reconcileScheduled = False, staleClientSweepInterval = 300000000000, mirrorSweepDone = True,
     mirrorSweepOnce = True, logLevel = 4, timers = [(300000000000, SweepTimer)], trace = []\<rparr>"

definition sample_client :: Addr where
  "sample_client = Addr4 192 168 1 50"

lemma sample_state_simps [simp]:
  "heap sample_state 0 = sample_lan" "heap sample_state (Suc 0) = sample_wan"
  "iface_refs sample_state = [0, 1]" "trace sample_state = []" "mirroredNeighs sample_state = []"
  "nextSock sample_state = 2" "nextRef sample_state = 2"
  "interfaces sample_state = [(''lan'', 0), (''wan'', 1)]"
  by (simp_all add: sample_state_def iface_refs_def)

lemma sample_iface_simps [simp]:
  "Ifindex sample_lan = 2" "Ifindex sample_wan = 3" "Master sample_lan = False"
  "Master sample_wan = True" "DHCPv4 sample_lan = ModeRelay" "DHCPv4 sample_wan = ModeRelay"
  "ARP sample_lan = ModeRelay" "ARP sample_wan = ModeRelay" "LearnRoutes sample_lan = True"
  "Running sample_lan = True" "Running sample_wan = True" "LearnRoutes sample_wan = True"
  "Name sample_lan = ''lan''" "Name sample_wan = ''wan''"
  "Ifname sample_lan = ''eth1''" "Ifname sample_wan = ''eth0''"
  "Inuse sample_lan = True" "Inuse sample_wan = True"
  "dhcp sample_lan = [\<lparr>ds_id = 0, ds_fd = 5, ds_iface = 0\<rparr>]"
  "dhcp sample_wan = [\<lparr>ds_id = 1, ds_fd = 6, ds_iface = 1\<rparr>]"
  "relayLinkAddress4 sample_lan = (Addr4 192 168 1 1, True)"
  "relayLinkAddress4 sample_wan = (Addr4 10 0 0 2, True)"
  by (simp_all add: sample_lan_def sample_wan_def relayLinkAddress4_def IsLoopback_def
      IsLinkLocalUnicast_def IsMulticast_def)

lemma sample_lookup [simp]:
  "ifaceByIndex sample_state 2 = Some 0" "ifaceByIndex sample_state 3 = Some 1"
  "ifaceByIfname sample_state ''eth1'' = Some 0" "ifaceByIfname sample_state ''eth0'' = Some 1"
  by (simp_all add: ifaceByIndex_def ifaceByIfname_def)

lemma sample_header_simps [simp]:
  "length (sample_header op) = 240" "take 240 (sample_header op @ area) = sample_header op"
  "drop 240 (sample_header op @ area) = area"
  by (simp_all add: sample_header_def)

lemma replicate_4 [simp]: "replicate 4 x = [x, x, x, x]"
  by (simp add: numeral_eq_Suc)

end
