(* ===== verification/Dhcp_Sock.thy ===== *)
theory Dhcp_Sock
  imports Dhcp_Wire Arp Samples
begin

text \<open>
  The UDP sockets of the relay (\<open>internal/relay/dhcpv4.go\<close>, \<open>rawsock.go\<close>): opening one with its
  options, setting up and tearing down the sockets of an interface, sending through one, and the
  read loop, turn by turn. A socket is identified by \<open>ds_id\<close>, standing for its pointer; its \<open>done\<close>
  channel is named by the same number. \<open>GoReadLoop\<close> marks the start of the goroutine that runs
  \<open>dhcpReadLoop\<close>.
\<close>

section \<open>The operations\<close>

definition closeFD :: "int \<Rightarrow> state \<Rightarrow> state" where
  "closeFD fd s = (if 0 \<le> fd then issue (Close fd) s else s)"

fun run_calls :: "env \<Rightarrow> call list \<Rightarrow> state \<Rightarrow> errno option \<times> state" where
  \<comment> \<open>calls in sequence, up to the first error\<close>
  "run_calls E [] s = (None, s)"
| "run_calls E (c # cs) s =
     (case perform E c s of
        (Some e, s1) \<Rightarrow> (Some e, s1)
      | (None, s1) \<Rightarrow> run_calls E cs s1)"

definition bindToDevice :: "int \<Rightarrow> string \<Rightarrow> call" where
  [simp]: "bindToDevice fd ifname = BindToDevice fd ifname"

definition setsockoptInt :: "int \<Rightarrow> int \<Rightarrow> int \<Rightarrow> int \<Rightarrow> call" where
  [simp]: "setsockoptInt fd lvl opt val = SetsockoptInt fd lvl opt val"

definition socket_setup :: "int \<Rightarrow> string \<Rightarrow> nat \<Rightarrow> call list" where
  "socket_setup fd ifname port =
     [bindToDevice fd ifname,
      setsockoptInt fd SOL_SOCKET SO_REUSEADDR 1,
      setsockoptInt fd SOL_SOCKET SO_REUSEPORT 1,
      setsockoptInt fd SOL_SOCKET SO_BROADCAST 1,
      Bind fd port]"

definition new_sock :: "iref \<Rightarrow> int \<Rightarrow> state \<Rightarrow> dhcpSock \<times> state" where
  "new_sock r fd s =
     (let ds = \<lparr>ds_id = nextSock s, ds_fd = fd, ds_iface = r\<rparr>
      in (ds, issue (GoReadLoop (ds_id ds)) (s\<lparr>nextSock := Suc (nextSock s)\<rparr>)))"

definition openDHCPSocket :: "env \<Rightarrow> iref \<Rightarrow> nat \<Rightarrow> state \<Rightarrow> (errno + dhcpSock) \<times> state" where
  "openDHCPSocket E r port s =
     (let s1 = issue Socket s
      in case ans_socket E (trace s) of
           Inl e \<Rightarrow> (Inl e, s1)
         | Inr fd \<Rightarrow>
             (case run_calls E (socket_setup fd (Ifname (heap s r)) port) s1 of
                (Some e, s2) \<Rightarrow> (Inl e, closeFD fd s2)
              | (None, s2) \<Rightarrow> (case new_sock r fd s2 of (ds, s3) \<Rightarrow> (Inr ds, s3))))"

definition close_sock :: "dhcpSock \<Rightarrow> state \<Rightarrow> state" where
  "close_sock ds s = closeFD (ds_fd ds) (issue (CloseDone (ds_id ds)) s)"

definition teardown :: "iref \<Rightarrow> state \<Rightarrow> state" where
  "teardown r s =
     (if dhcp (heap s r) \<noteq> []
      then set_iface r (\<lambda>i. i\<lparr>dhcp := []\<rparr>) (fold close_sock (dhcp (heap s r)) s)
      else s)"

definition append_sock :: "iref \<Rightarrow> dhcpSock \<Rightarrow> state \<Rightarrow> state" where
  "append_sock r ds = set_iface r (\<lambda>i. i\<lparr>dhcp := dhcp i @ [ds]\<rparr>)"

definition dhcpv4Setup :: "env \<Rightarrow> iref \<Rightarrow> bool \<Rightarrow> state \<Rightarrow> errno option \<times> state" where
  "dhcpv4Setup E r enable s =
     (let en = (enable \<and> DHCPv4 (heap s r) \<noteq> ModeDisabled);
          s1 = teardown r s
      in if \<not> en then (None, s1)
         else (case openDHCPSocket E r dhcpv4ServerPort s1 of
                 (Inl e, s2) \<Rightarrow> (Some e, s2)
               | (Inr ds67, s2) \<Rightarrow>
                   (let s3 = append_sock r ds67 s2
                    in if \<not> Master (heap s3 r) then (None, s3)
                       else (case openDHCPSocket E r dhcpv4ClientPort s3 of
                               (Inl e, s4) \<Rightarrow> (None, s4)
                             | (Inr ds68, s4) \<Rightarrow> (None, append_sock r ds68 s4)))))"

definition ifaceHasDHCPSock :: "Interface \<Rightarrow> dhcpSock \<Rightarrow> bool" where
  "ifaceHasDHCPSock i ds \<longleftrightarrow> list_ex (\<lambda>d. ds_id d = ds_id ds) (dhcp i)"

definition sockaddrIn4 :: "Addr \<Rightarrow> nat \<Rightarrow> (bytes \<times> nat) option" where
  \<comment> \<open>panics when \<open>dest\<close> has no IPv4 form\<close>
  "sockaddrIn4 dest port = do { b \<leftarrow> As4 dest; Some (b, port) }"

definition sendDHCPv4 :: "env \<Rightarrow> iref \<Rightarrow> Addr \<Rightarrow> nat \<Rightarrow> bytes \<Rightarrow> state \<Rightarrow> state option" where
  "sendDHCPv4 E r dest port payload s =
     (if dhcp (heap s r) = [] then Some s
      else do {
        ds \<leftarrow> idx (dhcp (heap s r)) 0;
        sa \<leftarrow> sockaddrIn4 dest port;
        Some (snd (perform E (Sendto (ds_fd ds) payload (fst sa) (snd sa)) s))
      })"

section \<open>The read loop\<close>

datatype recv_from = FromInet4 byte byte byte byte | FromOther

datatype recv_result = RecvErr errno | Received nat recv_from bytes
  \<comment> \<open>the count, the sender and the buffer after \<open>unix.Recvfrom\<close>\<close>

datatype loop_turn = Return | Continue | PostPacket Addr bytes

definition dhcpReadLoop_turn :: "bool \<Rightarrow> recv_result \<Rightarrow> bool \<Rightarrow> loop_turn option" where
  \<comment> \<open>\<open>done0\<close>, \<open>done1\<close>: whether \<open>ds.done\<close> is closed at the two places the turn looks at it\<close>
  "dhcpReadLoop_turn done0 r done1 =
     (if done0 then Some Return
      else case r of
        RecvErr e \<Rightarrow> if e = EINTR then Some Continue
                      else if done1 then Some Return else Some Continue
      | Received n from buf \<Rightarrow>
          if n = 0 then Some Continue
          else do {
            dat \<leftarrow> slc buf 0 n;
            Some (PostPacket (case from of FromInet4 a b c d \<Rightarrow> Addr4 a b c d | FromOther \<Rightarrow> ZeroAddr) dat)
          })"

fun dhcpReadLoop :: "(bool \<times> recv_result \<times> bool) list \<Rightarrow> (Addr \<times> bytes) list option" where
  \<comment> \<open>the packets posted over the given turns, up to a return; the pause after an error is left out\<close>
  "dhcpReadLoop [] = Some []"
| "dhcpReadLoop ((done0, r, done1) # ts) =
     Option.bind (dhcpReadLoop_turn done0 r done1)
       (\<lambda>t. case t of
          Return \<Rightarrow> Some []
        | Continue \<Rightarrow> dhcpReadLoop ts
        | PostPacket src dat \<Rightarrow> map_option ((#) (src, dat)) (dhcpReadLoop ts))"

section \<open>What the socket operations leave alone\<close>

lemma run_calls_state: "\<exists>ds. snd (run_calls E cs s) = s\<lparr>trace := trace s @ ds\<rparr>"
proof (induction cs arbitrary: s)
  case Nil
  show ?case by (rule exI [of _ "[]"]) simp
next
  case (Cons c cs)
  obtain ds where "snd (run_calls E cs (issue c s)) =
      (issue c s)\<lparr>trace := trace (issue c s) @ ds\<rparr>"
    using Cons by blast
  then have run: "snd (run_calls E cs (issue c s)) = s\<lparr>trace := trace s @ c # ds\<rparr>"
    by (simp add: issue_def)
  have one: "issue c s = s\<lparr>trace := trace s @ [c]\<rparr>"
    by (simp add: issue_def)
  show ?case
  proof (cases "ans_err E (trace s) c")
    case None
    then have "snd (run_calls E (c # cs) s) = s\<lparr>trace := trace s @ c # ds\<rparr>"
      using run by (simp add: perform_def)
    then show ?thesis by blast
  next
    case (Some e)
    then have "snd (run_calls E (c # cs) s) = s\<lparr>trace := trace s @ [c]\<rparr>"
      using one by (simp add: perform_def)
    then show ?thesis by blast
  qed
qed

interpretation run_calls: call_op "\<lambda>s. snd (run_calls E cs s)" for E cs
  by unfold_locales (rule run_calls_state)

interpretation closeFD: call_op "closeFD fd" for fd
  by (rule call_op_choice [of "\<lambda>s. if 0 \<le> fd then issue (Close fd) else (\<lambda>s. s)"])
    (simp_all add: call_op_issue call_op_id closeFD_def)

interpretation close_sock: call_op "close_sock ds" for ds
  by (rule call_op_choice [OF call_op_comp [OF call_op_issue closeFD.call_op_axioms]])
    (simp add: close_sock_def)

interpretation close_socks: call_op "fold close_sock dss" for dss
  by (rule call_op_fold) (rule close_sock.call_op_axioms)

text \<open>
  The contract of the operations that replace the sockets of one interface: besides the trace
  they change the socket list of that interface and the counter of sockets. An operation that
  only issues calls meets it for every interface.
\<close>

definition sock_step :: "iref \<Rightarrow> state \<Rightarrow> state \<Rightarrow> bool" where
  "sock_step r s t \<longleftrightarrow> (\<exists>cs n ds. nextSock s \<le> n \<and>
     t = (set_iface r (\<lambda>i. i\<lparr>dhcp := ds\<rparr>) s)\<lparr>trace := trace s @ cs, nextSock := n\<rparr>)"

lemma sock_stepI:
  "nextSock s \<le> n \<Longrightarrow>
   t = (set_iface r (\<lambda>i. i\<lparr>dhcp := ds\<rparr>) s)\<lparr>trace := trace s @ cs, nextSock := n\<rparr> \<Longrightarrow> sock_step r s t"
  by (auto simp: sock_step_def)

lemma set_same_dhcp: "set_iface r (\<lambda>i. i\<lparr>dhcp := dhcp (heap s r)\<rparr>) s = s"
  by (simp add: set_iface_def)

lemma sock_step_refl: "sock_step r s s"
  by (rule sock_stepI [where cs = "[]" and n = "nextSock s" and ds = "dhcp (heap s r)"])
    (simp_all add: set_same_dhcp)

lemma sock_step_trans:
  assumes "sock_step r s t" and "sock_step r t u"
  shows "sock_step r s u"
proof -
  obtain cs n ds where t: "nextSock s \<le> n"
      "t = (set_iface r (\<lambda>i. i\<lparr>dhcp := ds\<rparr>) s)\<lparr>trace := trace s @ cs, nextSock := n\<rparr>"
    using assms(1) by (auto simp: sock_step_def)
  obtain cs' n' ds' where u: "nextSock t \<le> n'"
      "u = (set_iface r (\<lambda>i. i\<lparr>dhcp := ds'\<rparr>) t)\<lparr>trace := trace t @ cs', nextSock := n'\<rparr>"
    using assms(2) by (auto simp: sock_step_def)
  show ?thesis
    by (rule sock_stepI [where cs = "cs @ cs'" and n = n' and ds = ds'])
      (use t u in \<open>simp_all add: set_iface_def\<close>)
qed

locale sock_op =
  fixes f :: "state \<Rightarrow> state" and r :: iref
  assumes only_socks: "sock_step r s (f s)"
begin

lemma only_socksE:
  obtains cs n ds where "nextSock s \<le> n"
    and "f s = (set_iface r (\<lambda>i. i\<lparr>dhcp := ds\<rparr>) s)\<lparr>trace := trace s @ cs, nextSock := n\<rparr>"
  using only_socks [of s] by (auto simp: sock_step_def)

lemma sock_frame [simp]:
  "nextRef (f s) = nextRef s" "interfaces (f s) = interfaces s"
  "mirroredNeighs (f s) = mirroredNeighs s" "reconcileScheduled (f s) = reconcileScheduled s"
  "staleClientSweepInterval (f s) = staleClientSweepInterval s"
  "mirrorSweepDone (f s) = mirrorSweepDone s" "mirrorSweepOnce (f s) = mirrorSweepOnce s"
  "logLevel (f s) = logLevel s" "timers (f s) = timers s" "iface_refs (f s) = iface_refs s"
  by (rule only_socksE [of s], simp add: iface_refs_def)+

lemma sock_heap [simp]:
  "Name (heap (f s) r') = Name (heap s r')" "Ifname (heap (f s) r') = Ifname (heap s r')"
  "Ifindex (heap (f s) r') = Ifindex (heap s r')" "Running (heap (f s) r') = Running (heap s r')"
  "Master (heap (f s) r') = Master (heap s r')"
  "LearnRoutes (heap (f s) r') = LearnRoutes (heap s r')"
  "Inuse (heap (f s) r') = Inuse (heap s r')" "Addr4s (heap (f s) r') = Addr4s (heap s r')"
  "DHCPv4 (heap (f s) r') = DHCPv4 (heap s r')" "ARP (heap (f s) r') = ARP (heap s r')"
  by (rule only_socksE [of s], simp)+

lemma sock_heap_other: "r' \<noteq> r \<Longrightarrow> heap (f s) r' = heap s r'"
  by (rule only_socksE [of s]) simp

lemma nextSock_mono: "nextSock s \<le> nextSock (f s)"
  by (rule only_socksE [of s]) simp

lemma extend: "sock_step r s t \<Longrightarrow> sock_step r s (f t)"
  by (rule sock_step_trans [OF _ only_socks])

end

sublocale call_op \<subseteq> calls_as_sock: sock_op f r for r
proof
  fix s
  obtain cs where "f s = s\<lparr>trace := trace s @ cs\<rparr>"
    by (rule only_callsE)
  then show "sock_step r s (f s)"
    by (intro sock_stepI [where cs = cs and n = "nextSock s" and ds = "dhcp (heap s r)"])
      (simp_all add: set_same_dhcp)
qed

context call_op
begin

lemma extend_socks: "sock_step r s t \<Longrightarrow> sock_step r s (f t)"
  by (rule calls_as_sock.extend)

end

section \<open>The socket operations meet the contract\<close>

interpretation set_dhcp: sock_op "set_iface r (\<lambda>i. i\<lparr>dhcp := g i\<rparr>)" r for r g
proof
  show "sock_step r s (set_iface r (\<lambda>i. i\<lparr>dhcp := g i\<rparr>) s)" for s
    by (rule sock_stepI [where cs = "[]" and n = "nextSock s" and ds = "g (heap s r)"])
      (simp_all add: set_iface_def)
qed

interpretation new_sock: sock_op "\<lambda>s. snd (new_sock r fd s)" r' for r fd r'
proof
  show "sock_step r' s (snd (new_sock r fd s))" for s
    by (rule sock_stepI [where cs = "[GoReadLoop (nextSock s)]" and n = "Suc (nextSock s)"
        and ds = "dhcp (heap s r')"])
      (simp_all add: new_sock_def set_same_dhcp issue_def Let_def)
qed

interpretation openDHCPSocket: sock_op "\<lambda>s. snd (openDHCPSocket E r p s)" r for E r p
proof
  fix s
  let ?run = "\<lambda>fd. snd (run_calls E (socket_setup fd (Ifname (heap s r)) p) (issue Socket s))"
  have issued: "sock_step r s (issue Socket s)"
    by (rule issue.extend_socks [OF sock_step_refl])
  then have run: "sock_step r s (?run fd)" for fd
    by (rule run_calls.extend_socks)
  have "sock_step r s (closeFD fd (?run fd))" for fd
    by (rule closeFD.extend_socks [OF run])
  moreover have "sock_step r s (snd (new_sock r fd (?run fd)))" for fd
    by (rule new_sock.extend [OF run])
  ultimately show "sock_step r s (snd (openDHCPSocket E r p s))"
    using issued
    by (auto simp: openDHCPSocket_def Let_def split: sum.split prod.split option.split)
      (metis snd_conv)+
qed

interpretation teardown: sock_op "teardown r" r for r
proof
  show "sock_step r s (teardown r s)" for s
    using set_dhcp.extend [OF close_socks.extend_socks [OF sock_step_refl]]
    by (simp add: teardown_def sock_step_refl)
qed

interpretation append_sock: sock_op "append_sock r ds" r for r ds
  unfolding append_sock_def by (rule set_dhcp.sock_op_axioms)

interpretation dhcpv4Setup: sock_op "\<lambda>s. snd (dhcpv4Setup E r b s)" r for E r b
proof
  fix s
  let ?t = "teardown r s"
  let ?o1 = "openDHCPSocket E r dhcpv4ServerPort ?t"
  have t: "sock_step r s ?t"
    by (rule teardown.only_socks)
  then have o1: "sock_step r s (snd ?o1)"
    by (rule openDHCPSocket.extend)
  then have a1: "sock_step r s (append_sock r ds (snd ?o1))" for ds
    by (rule append_sock.extend)
  then have o2: "sock_step r s (snd (openDHCPSocket E r dhcpv4ClientPort (append_sock r ds (snd ?o1))))"
    for ds
    by (rule openDHCPSocket.extend)
  then have a2: "sock_step r s (append_sock r ds'
      (snd (openDHCPSocket E r dhcpv4ClientPort (append_sock r ds (snd ?o1)))))" for ds ds'
    by (rule append_sock.extend)
  show "sock_step r s (snd (dhcpv4Setup E r b s))"
    using t o1 a1 o2 a2 unfolding dhcpv4Setup_def Let_def
    by (auto split: sum.split prod.split) (metis snd_conv)+
qed

section \<open>The sockets an interface ends up with\<close>

lemma openDHCPSocket_result:
  assumes "openDHCPSocket E r p s = (res, t)"
  shows "heap t = heap s"
    and "res = Inr ds \<Longrightarrow> ds_iface ds = r \<and> ds_id ds = nextSock s \<and> nextSock t = Suc (nextSock s)"
    and "res = Inl e \<Longrightarrow> nextSock t = nextSock s"
proof -
  have run: "heap u = heap v \<and> nextSock u = nextSock v" if "run_calls E cs v = (x, u)" for cs v x u
    using run_calls.frame(1,4) [of E cs v] that by simp
  show "heap t = heap s"
    and "res = Inr ds \<Longrightarrow> ds_iface ds = r \<and> ds_id ds = nextSock s \<and> nextSock t = Suc (nextSock s)"
    and "res = Inl e \<Longrightarrow> nextSock t = nextSock s"
    using assms
    by (auto simp: openDHCPSocket_def Let_def new_sock_def split: sum.splits prod.splits
        option.splits dest!: run)
qed

text \<open>What the sockets of an interface look like: they point back, have their own numbers, and
  there are at most two on a master and at most one on a slave.\<close>

definition socks_ok :: "nat \<Rightarrow> nat \<Rightarrow> iref \<Rightarrow> Interface \<Rightarrow> bool" where
  "socks_ok lo hi r i \<longleftrightarrow>
     list_all (\<lambda>ds. ds_iface ds = r \<and> lo \<le> ds_id ds \<and> ds_id ds < hi) (dhcp i) \<and>
     distinct (map ds_id (dhcp i)) \<and> length (dhcp i) \<le> (if Master i then 2 else 1)"

lemma teardown_dhcp [simp]: "dhcp (heap (teardown r s) r) = []"
  by (simp add: teardown_def)

lemma teardown_nextSock [simp]: "nextSock (teardown r s) = nextSock s"
  by (simp add: teardown_def)

lemma dhcpv4Setup_off:
  "\<not> (b \<and> DHCPv4 (heap s r) \<noteq> ModeDisabled) \<Longrightarrow> dhcpv4Setup E r b s = (None, teardown r s)"
  by (simp add: dhcpv4Setup_def Let_def)

lemma dhcpv4Setup_on:
  assumes "b" and "DHCPv4 (heap s r) \<noteq> ModeDisabled"
  shows "dhcpv4Setup E r b s =
    (case openDHCPSocket E r dhcpv4ServerPort (teardown r s) of
       (Inl e, t) \<Rightarrow> (Some e, t)
     | (Inr ds67, t) \<Rightarrow>
         if \<not> Master (heap s r) then (None, append_sock r ds67 t)
         else (case openDHCPSocket E r dhcpv4ClientPort (append_sock r ds67 t) of
                 (Inl e, u) \<Rightarrow> (None, u)
               | (Inr ds68, u) \<Rightarrow> (None, append_sock r ds68 u)))"
proof -
  have "Master (heap (append_sock r ds t) r) = Master (heap s r)"
    if "openDHCPSocket E r dhcpv4ServerPort (teardown r s) = (x, t)" for x t ds
    using openDHCPSocket_result(1) [OF that] by simp
  with assms show ?thesis
    by (auto simp: dhcpv4Setup_def Let_def split: sum.split prod.split)
qed

lemma dhcpv4Setup_socks:
  "socks_ok (nextSock s) (nextSock (snd (dhcpv4Setup E r b s))) r (heap (snd (dhcpv4Setup E r b s)) r)"
proof (cases "b \<and> DHCPv4 (heap s r) \<noteq> ModeDisabled")
  case False
  then show ?thesis
    by (simp add: dhcpv4Setup_off socks_ok_def)
next
  case True
  obtain res t where o1: "openDHCPSocket E r dhcpv4ServerPort (teardown r s) = (res, t)"
    by fastforce
  note r1 = openDHCPSocket_result [OF o1]
  show ?thesis
  proof (cases res)
    case (Inl e)
    with True o1 r1(1) show ?thesis
      by (simp add: dhcpv4Setup_on socks_ok_def)
  next
    case (Inr ds)
    let ?t = "append_sock r ds t"
    have t: "dhcp (heap ?t r) = [ds]" "nextSock ?t = Suc (nextSock s)"
      "ds_iface ds = r" "ds_id ds = nextSock s"
      using r1(1) r1(2) [of ds] Inr by (simp_all add: append_sock_def)
    obtain res' u where o2: "openDHCPSocket E r dhcpv4ClientPort ?t = (res', u)"
      by fastforce
    note r2 = openDHCPSocket_result [OF o2]
    have m: "Master (heap t r) = Master (heap s r)"
      using r1(1) by simp
    show ?thesis
      using True o1 Inr o2 t r2 m
      by (cases "Master (heap s r)"; cases res')
        (auto simp: dhcpv4Setup_on socks_ok_def append_sock_def)
  qed
qed

lemma dhcpv4Setup_dhcp_only_if:
  "dhcp (heap (snd (dhcpv4Setup E r b s)) r) \<noteq> [] \<Longrightarrow> b \<and> DHCPv4 (heap s r) = ModeRelay"
  by (cases "b \<and> DHCPv4 (heap s r) \<noteq> ModeDisabled"; cases "DHCPv4 (heap s r)")
    (auto simp: dhcpv4Setup_off)

section \<open>Descriptors\<close>

text \<open>
  Tearing an interface down closes the descriptor and the \<open>done\<close> channel of each of its sockets,
  and a socket whose set-up fails is closed before the error is returned.
\<close>

lemma close_socks_trace:
  "trace (fold close_sock dss s) = trace s @ concat (map (\<lambda>ds. CloseDone (ds_id ds) #
     (if 0 \<le> ds_fd ds then [Close (ds_fd ds)] else [])) dss)"
  by (induction dss arbitrary: s) (auto simp: close_sock_def closeFD_def)

lemma teardown_trace:
  "trace (teardown r s) = trace s @ concat (map (\<lambda>ds. CloseDone (ds_id ds) #
     (if 0 \<le> ds_fd ds then [Close (ds_fd ds)] else [])) (dhcp (heap s r)))"
  by (simp add: teardown_def close_socks_trace)

text \<open>C27: A socket whose set-up fails does not leak: whichever of binding to the device, the three socket
  options or binding to the port is refused, the last call made is the close of the descriptor.\<close>
theorem openDHCPSocket_error_closes:
  assumes "openDHCPSocket E r p s = (Inl e, t)" and "ans_socket E (trace s) = Inr fd" and "0 \<le> fd"
  shows "\<exists>cs. trace t = trace s @ Socket # cs @ [Close fd]"
proof -
  let ?run = "run_calls E (socket_setup fd (Ifname (heap s r)) p) (issue Socket s)"
  obtain u where run: "?run = (Some e, u)" and t: "t = closeFD fd u"
    using assms by (auto simp: openDHCPSocket_def Let_def new_sock_def split: prod.splits option.splits)
  obtain cs where "trace u = trace (issue Socket s) @ cs"
    using run_calls.trace_grows [of E "socket_setup fd (Ifname (heap s r)) p" "issue Socket s"] run
    by auto
  with t assms(3) show ?thesis
    by (simp add: closeFD_def)
qed

lemma openDHCPSocket_error_closes_witness:
  "\<exists>cs. trace (snd (openDHCPSocket (quiet_env\<lparr>ans_err := \<lambda>h c. if c = Bind 3 67 then Some (Errno 98) else None\<rparr>)
      0 67 sample_state)) = Socket # cs @ [Close 3]"
proof -
  let ?E = "quiet_env\<lparr>ans_err := \<lambda>h c. if c = Bind 3 67 then Some (Errno 98) else None\<rparr>"
  obtain t where "openDHCPSocket ?E 0 67 sample_state = (Inl (Errno 98), t)"
    by (simp add: openDHCPSocket_def quiet_env_def perform_def socket_setup_def)
  from openDHCPSocket_error_closes [OF this, of 3] this show ?thesis
    by (simp add: quiet_env_def)
qed

lemma sendDHCPv4_total:
  assumes "Is4 dest"
  shows "\<exists>t. sendDHCPv4 E r dest port payload s = Some t"
  using assms by (simp add: sendDHCPv4_def sockaddrIn4_def As4_Is4)

lemma sendDHCPv4_eq:
  assumes "Is4 dest"
  shows "sendDHCPv4 E r dest port payload s = Some
    (case dhcp (heap s r) of [] \<Rightarrow> s
     | ds # _ \<Rightarrow> issue (Sendto (ds_fd ds) payload (AsSlice dest) port) s)"
  using assms by (cases "dhcp (heap s r)") (simp_all add: sendDHCPv4_def sockaddrIn4_def As4_Is4)

lemma dhcpv4Setup_trace: "\<exists>cs. trace (snd (dhcpv4Setup E r b s)) = trace (teardown r s) @ cs"
proof (cases "b \<and> DHCPv4 (heap s r) \<noteq> ModeDisabled")
  case False
  then show ?thesis by (simp add: dhcpv4Setup_off)
next
  case True
  have grow: "\<exists>cs. trace (snd (openDHCPSocket E r p u)) = trace u @ cs" for p u
  proof -
    have "sock_step r u (snd (openDHCPSocket E r p u))"
      by (rule openDHCPSocket.only_socks)
    then show ?thesis
      by (auto simp: sock_step_def)
  qed
  obtain res t where o1: "openDHCPSocket E r dhcpv4ServerPort (teardown r s) = (res, t)" by fastforce
  obtain cs where cs: "trace t = trace (teardown r s) @ cs"
    using grow [of dhcpv4ServerPort "teardown r s"] o1 by auto
  have app: "trace (append_sock r ds u) = trace u" for ds u
    by (simp add: append_sock_def)
  show ?thesis
  proof (cases res)
    case (Inl e)
    with True o1 cs show ?thesis by (simp add: dhcpv4Setup_on)
  next
    case (Inr ds)
    obtain res' u where o2: "openDHCPSocket E r dhcpv4ClientPort (append_sock r ds t) = (res', u)" by fastforce
    obtain cs' where "trace u = trace t @ cs'"
      using grow [of dhcpv4ClientPort "append_sock r ds t"] o2 app by auto
    with True o1 o2 Inr cs app show ?thesis
      by (auto simp: dhcpv4Setup_on split: sum.split)
  qed
qed

text \<open>C26: Setting up the sockets of an interface replaces them: every old socket has its \<open>done\<close> channel and
  its descriptor closed, every socket there is afterwards is new, has a number of its own and points
  back at the interface, there are at most two of them on a master and one on a slave, and there are
  any only if it was asked for and the interface relays DHCP.\<close>
theorem dhcpv4Setup_replaces_sockets:
  assumes "snd (dhcpv4Setup E r enable s) = t"
  shows "list_all (\<lambda>ds. CloseDone (ds_id ds) \<in> set (trace t) \<and> (0 \<le> ds_fd ds \<longrightarrow> Close (ds_fd ds) \<in> set (trace t)))
      (dhcp (heap s r)) \<and>
    list_all (\<lambda>ds. ds_iface ds = r \<and> nextSock s \<le> ds_id ds \<and> ds_id ds < nextSock t) (dhcp (heap t r)) \<and>
    distinct (map ds_id (dhcp (heap t r))) \<and>
    length (dhcp (heap t r)) \<le> (if Master (heap t r) then 2 else 1) \<and>
    (dhcp (heap t r) \<noteq> [] \<longrightarrow> enable \<and> DHCPv4 (heap s r) = ModeRelay) \<and>
    (\<forall>r'. r' \<noteq> r \<longrightarrow> heap t r' = heap s r')"
proof -
  obtain cs where "trace t = trace (teardown r s) @ cs"
    using dhcpv4Setup_trace [of E r enable s] assms by auto
  then have "list_all (\<lambda>ds. CloseDone (ds_id ds) \<in> set (trace t) \<and> (0 \<le> ds_fd ds \<longrightarrow> Close (ds_fd ds) \<in> set (trace t)))
      (dhcp (heap s r))"
    by (auto simp: teardown_trace list_all_iff)
  moreover have "\<forall>r'. r' \<noteq> r \<longrightarrow> heap t r' = heap s r'"
    using dhcpv4Setup.sock_heap_other assms by blast
  ultimately show ?thesis
    using dhcpv4Setup_socks [of s E r enable] dhcpv4Setup_dhcp_only_if [of E r enable s] assms
    unfolding socks_ok_def by blast
qed

lemma dhcpv4Setup_replaces_sockets_witness:
  "Close 5 \<in> set (trace (snd (dhcpv4Setup quiet_env 0 True sample_state)))"
  using dhcpv4Setup_replaces_sockets [of quiet_env 0 True sample_state, OF refl] by simp

text \<open>One turn of the read loop posts a packet exactly when one of at least one byte was received.\<close>

lemma dhcpReadLoop_posts:
  assumes "n \<le> length buf"
  shows "dhcpReadLoop_turn done0 (Received n from buf) done1 = Some
    (if done0 then Return else if n = 0 then Continue
     else PostPacket (case from of FromInet4 a b c d \<Rightarrow> Addr4 a b c d | FromOther \<Rightarrow> ZeroAddr) (take n buf))"
  using assms by (simp add: dhcpReadLoop_turn_def)

text \<open>
  So a reader posts the non-empty datagrams it received, in order and each once, until it sees
  \<open>done\<close> closed; interrupted reads and errors lose nothing.
\<close>

fun stops_at :: "bool \<times> recv_result \<times> bool \<Rightarrow> bool" where
  "stops_at (done0, RecvErr e, done1) \<longleftrightarrow> done0 \<or> (e \<noteq> EINTR \<and> done1)"
| "stops_at (done0, Received n from buf, done1) \<longleftrightarrow> done0"

fun datagram :: "bool \<times> recv_result \<times> bool \<Rightarrow> (Addr \<times> bytes) list" where
  "datagram (done0, RecvErr e, done1) = []"
| "datagram (done0, Received n from buf, done1) = (if n = 0 then [] else
     [(case from of FromInet4 a b c d \<Rightarrow> Addr4 a b c d | FromOther \<Rightarrow> ZeroAddr, take n buf)])"

lemma dhcpReadLoop_posts_all:
  assumes "\<forall>(done0, r, done1) \<in> set ts. \<forall>n from buf. r = Received n from buf \<longrightarrow> n \<le> length buf"
  shows "dhcpReadLoop ts = Some (concat (map datagram (takeWhile (\<lambda>t. \<not> stops_at t) ts)))"
  using assms
proof (induction ts)
  case Nil
  then show ?case by simp
next
  case (Cons t ts)
  obtain done0 r done1 where t: "t = (done0, r, done1)" by (cases t)
  show ?case
  proof (cases r)
    case (RecvErr e)
    with Cons t show ?thesis
      by (auto simp: dhcpReadLoop_turn_def)
  next
    case (Received n src buf)
    with Cons t show ?thesis
      by (auto simp: dhcpReadLoop_posts)
  qed
qed

end
