(* ===== verification/Dhcp_Relay.thy ===== *)
theory Dhcp_Relay
  imports Dhcp_Options Dhcp_Sock
begin

text \<open>
  The DHCPv4 relay proper (\<open>internal/relay/dhcpv4.go\<close>): the dispatch on a received packet, the
  relay of a client request to the master interfaces, the relay of a server reply to the slave
  interfaces, and the removal of a client that gave its address up. The functions return \<open>None\<close>
  exactly where the Go code would panic. Log messages are left out.
\<close>

section \<open>The operations\<close>

abbreviation key_of :: "state \<Rightarrow> Addr \<Rightarrow> iref \<Rightarrow> mirroredNeighKey" where
  "key_of s a r \<equiv> \<lparr>mk_addr = a, mk_ifindex = Ifindex (heap s r)\<rparr>"

definition add_mirrored :: "mirroredNeighKey \<Rightarrow> state \<Rightarrow> state" where
  \<comment> \<open>\<open>mirroredNeighs[key] = true\<close>\<close>
  "add_mirrored k s = s\<lparr>mirroredNeighs := List.insert k (mirroredNeighs s)\<rparr>"

definition delete_mirrored :: "mirroredNeighKey \<Rightarrow> state \<Rightarrow> state" where
  \<comment> \<open>\<open>delete(mirroredNeighs, key)\<close>\<close>
  "delete_mirrored k s = s\<lparr>mirroredNeighs := removeAll k (mirroredNeighs s)\<rparr>"

definition unmirrorClient :: "env \<Rightarrow> Addr \<Rightarrow> iref \<Rightarrow> state \<Rightarrow> state" where
  "unmirrorClient E a r s =
     (if key_of s a r \<notin> set (mirroredNeighs s) then s
      else deleteNeigh4 E a (Ifindex (heap s r))
             (arpMirrorAddr E a r False (delete_mirrored (key_of s a r) s)))"

definition stampRequest :: "bytes \<Rightarrow> Addr \<Rightarrow> bytes option" where
  \<comment> \<open>the per-master copy: hops, giaddr, broadcast flag\<close>
  "stampRequest out giaddr = do {
     h \<leftarrow> idx out 3;
     out1 \<leftarrow> upd out 3 (h + 1);
     g \<leftarrow> slc out1 24 28;
     out2 \<leftarrow> (if g = [0, 0, 0, 0] then put out1 24 28 (AsSlice giaddr) else Some out1);
     f \<leftarrow> idx out2 10;
     upd out2 10 (f OR ucast (drop_bit 8 bootpBroadcastFlag))
   }"

definition relayToMaster ::
  "env \<Rightarrow> bytes \<Rightarrow> bytes \<Rightarrow> bool \<Rightarrow> iref \<Rightarrow> state \<Rightarrow> state option" where
  \<comment> \<open>the body of the loop of \<open>relayClientRequest\<close>\<close>
  "relayToMaster E dat out82 have82 c s =
     (if \<not> Master (heap s c) \<or> DHCPv4 (heap s c) \<noteq> ModeRelay \<or> length (dhcp (heap s c)) = 0
      then Some s
      else (case relayLinkAddress4 (heap s c) of (giaddr, ok) \<Rightarrow>
        if \<not> ok then Some s
        else do {
          out \<leftarrow> stampRequest (if have82 then out82 else dat) giaddr;
          sendDHCPv4 E c Broadcast dhcpv4ServerPort out s
        }))"

definition releaseClient :: "env \<Rightarrow> bytes \<Rightarrow> iref \<Rightarrow> state \<Rightarrow> state option" where
  \<comment> \<open>\<open>case dhcpMsgRelease\<close>\<close>
  "releaseClient E dat r s = do {
     b \<leftarrow> slc dat 12 16;
     (case AddrFromSlice b of (ci, ok) \<Rightarrow>
        Some (if ok \<and> Is4 ci \<and> \<not> IsUnspecified ci then unmirrorClient E ci r s else s))
   }"

definition declineOption :: "env \<Rightarrow> iref \<Rightarrow> dhcpOption \<Rightarrow> state \<Rightarrow> state" where
  \<comment> \<open>the body of the loop of \<open>case dhcpMsgDecline\<close>\<close>
  "declineOption E r opt s =
     (if opt_code opt = dhcpOptRequested \<and> length (opt_data opt) = 4
      then (case AddrFromSlice (opt_data opt) of (a, ok) \<Rightarrow> if ok then unmirrorClient E a r s else s)
      else s)"

definition relayClientRequest :: "env \<Rightarrow> bytes \<Rightarrow> iref \<Rightarrow> state \<Rightarrow> state option" where
  "relayClientRequest E dat r s = do {
     hops \<leftarrow> idx dat 3;
     if dhcpMaxHops \<le> hops then Some s
     else do {
       opts \<leftarrow> parseDHCPOptions dat;
       let msgType = fst (dhcpOptionByte opts dhcpOptMsgType);
       s1 \<leftarrow> (if msgType = dhcpMsgRelease then releaseClient E dat r s
              else if msgType = dhcpMsgDecline then Some (fold (declineOption E r) opts s)
              else Some s);
       (out82, have82) \<leftarrow> insertAgentInfo dat (Ifindex (heap s1 r));
       fold_opt (relayToMaster E dat out82 have82) (iface_refs s1) s1
     }
   }"

definition pickSlave :: "state \<Rightarrow> dhcpOption \<Rightarrow> iref option \<Rightarrow> iref option option" where
  \<comment> \<open>the body of the loop that looks for the slave; the last circuit-id that names one wins\<close>
  "pickSlave s opt sel =
     (if opt_code opt = dhcpOptAgentInfo
      then do {
        (i, ok) \<leftarrow> parseCircuitID (opt_data opt);
        Some (if ok then (case ifaceByIndex s i of
                 Some r \<Rightarrow> if \<not> Master (heap s r) then Some r else sel
               | None \<Rightarrow> sel)
              else sel)
      }
      else Some sel)"

definition replyTargets :: "state \<Rightarrow> iref option \<Rightarrow> iref list" where
  "replyTargets s sel = (case sel of
     Some r \<Rightarrow> [r]
   | None \<Rightarrow> filter (\<lambda>r. \<not> Master (heap s r) \<and> DHCPv4 (heap s r) = ModeRelay \<and>
       0 < length (dhcp (heap s r))) (iface_refs s))"

definition assignedAddr :: "bytes \<Rightarrow> (Addr \<times> bool) option" where
  \<comment> \<open>\<open>yiaddr\<close> and \<open>hasYi\<close>\<close>
  "assignedAddr dat = do {
     b \<leftarrow> slc dat 16 20;
     (case AddrFromSlice b of (a, ok) \<Rightarrow>
        Some (a, ok \<and> \<not> (\<not> Is4 a \<or> IsUnspecified a \<or> IsMulticast a \<or> IsLoopback a \<or>
                          IsLinkLocalUnicast a)))
   }"

definition learnClient :: "env \<Rightarrow> bytes \<Rightarrow> Addr \<Rightarrow> iref \<Rightarrow> state \<Rightarrow> state option" where
  \<comment> \<open>the branch of a DHCPACK with a usable \<open>yiaddr\<close>\<close>
  "learnClient E dat a r s = do {
     mac \<leftarrow> slc dat 28 34;
     let k = key_of s a r;
     let s1 = (if k \<notin> set (mirroredNeighs s) then arpMirrorAddr E a r True (add_mirrored k s) else s);
     Some (seedNeighbor4 E a mac (Ifindex (heap s r)) s1)
   }"

definition replyPayload :: "bytes \<Rightarrow> Interface \<Rightarrow> bytes option" where
  "replyPayload dat i = do {
     payload \<leftarrow> stripAgentInfo dat;
     (case relayLinkAddress4 i of (gw, ok) \<Rightarrow>
        if ok then do { (p, _) \<leftarrow> rewriteGateway payload gw; Some p } else Some payload)
   }"

definition relayToTarget ::
  "env \<Rightarrow> bytes \<Rightarrow> int \<Rightarrow> Addr \<Rightarrow> bool \<Rightarrow> 16 word \<Rightarrow> iref \<Rightarrow> state \<Rightarrow> state option" where
  \<comment> \<open>the body of the loop of \<open>relayServerResponse\<close>\<close>
  "relayToTarget E dat msgType yiaddr hasYi flags t s = do {
     payload \<leftarrow> replyPayload dat (heap s t);
     s1 \<leftarrow> (if msgType = dhcpMsgAck \<and> hasYi then learnClient E dat yiaddr t s else Some s);
     let dest = (if flags AND bootpBroadcastFlag = 0 \<and> msgType = dhcpMsgAck \<and> hasYi
                 then yiaddr else Broadcast);
     sendDHCPv4 E t dest dhcpv4ClientPort payload s1
   }"

definition relayServerResponse :: "env \<Rightarrow> bytes \<Rightarrow> state \<Rightarrow> state option" where
  \<comment> \<open>the code's \<open>src\<close> and \<open>master\<close> are used for log messages only\<close>
  "relayServerResponse E dat s = do {
     opts \<leftarrow> parseDHCPOptions dat;
     if opts = [] then Some s
     else do {
       let msgType = fst (dhcpOptionByte opts dhcpOptMsgType);
       sel \<leftarrow> fold_opt (pickSlave s) opts None;
       (yiaddr, hasYi) \<leftarrow> assignedAddr dat;
       f \<leftarrow> slc dat 10 12;
       f0 \<leftarrow> idx f 0; f1 \<leftarrow> idx f 1;
       fold_opt (relayToTarget E dat msgType yiaddr hasYi (be_Uint16 f0 f1)) (replyTargets s sel) s
     }
   }"

definition handleDHCPv4 :: "env \<Rightarrow> dhcpSock \<Rightarrow> Addr \<Rightarrow> bytes \<Rightarrow> state \<Rightarrow> state option" where
  "handleDHCPv4 E ds src dat s =
     (let r = ds_iface ds
      in if \<not> ifaceHasDHCPSock (heap s r) ds \<or> DHCPv4 (heap s r) \<noteq> ModeRelay then Some s
         else if length dat < dhcpOptionsOff then Some s
         else do {
           htype \<leftarrow> idx dat 1;
           hlen \<leftarrow> idx dat 2;
           if htype \<noteq> 1 \<or> hlen \<noteq> 6 then Some s
           else do {
             cookie \<leftarrow> slc dat dhcpCookieOff dhcpOptionsOff;
             if cookie \<noteq> dhcpMagicCookie then Some s
             else do {
               op \<leftarrow> idx dat 0;
               if op = bootpRequest then
                 (if \<not> Master (heap s r) then relayClientRequest E dat r s else Some s)
               else if op = bootpReply then
                 (if Master (heap s r) then relayServerResponse E dat s else Some s)
               else Some s
             }
           }
         })"

section \<open>What the relay operations change\<close>

text \<open>
  Relaying changes nothing of the state but the set of mirrored clients and the trace.
  \<open>mirror_step P s t\<close> says so of two states, with \<open>P\<close> bounding the keys that may be added.
\<close>

definition mirror_step :: "(mirroredNeighKey \<Rightarrow> bool) \<Rightarrow> state \<Rightarrow> state \<Rightarrow> bool" where
  "mirror_step P s t \<longleftrightarrow>
     (\<exists>ms cs. t = s\<lparr>mirroredNeighs := ms, trace := trace s @ cs\<rparr>) \<and>
     (distinct (mirroredNeighs s) \<longrightarrow> distinct (mirroredNeighs t)) \<and>
     (\<forall>k \<in> set (mirroredNeighs t). k \<in> set (mirroredNeighs s) \<or> P k)"

lemma mirror_stepI:
  assumes "t = s\<lparr>mirroredNeighs := ms, trace := trace s @ cs\<rparr>"
    and "distinct (mirroredNeighs s) \<Longrightarrow> distinct ms"
    and "\<And>k. k \<in> set ms \<Longrightarrow> k \<in> set (mirroredNeighs s) \<or> P k"
  shows "mirror_step P s t"
  using assms unfolding mirror_step_def by auto

lemma mirror_step_refl: "mirror_step P s s"
  by (rule mirror_stepI [where ms = "mirroredNeighs s" and cs = "[]"]) simp_all

lemma mirror_step_trans: "mirror_step P s t \<Longrightarrow> mirror_step P t u \<Longrightarrow> mirror_step P s u"
  by (fastforce simp: mirror_step_def)

lemma mirror_step_weaken: "mirror_step P s t \<Longrightarrow> (\<And>k. P k \<Longrightarrow> Q k) \<Longrightarrow> mirror_step Q s t"
  by (auto simp: mirror_step_def)

lemma mirror_step_add: "P k \<Longrightarrow> mirror_step P s (add_mirrored k s)"
  by (rule mirror_stepI [where ms = "List.insert k (mirroredNeighs s)" and cs = "[]"])
    (auto simp: add_mirrored_def)

lemma mirror_step_delete: "mirror_step P s (delete_mirrored k s)"
  by (rule mirror_stepI [where ms = "removeAll k (mirroredNeighs s)" and cs = "[]"])
    (auto simp: delete_mirrored_def distinct_removeAll)

lemma mirror_step_frame:
  assumes "mirror_step P s t"
  shows "heap t = heap s" "nextRef t = nextRef s" "interfaces t = interfaces s"
    "nextSock t = nextSock s" "reconcileScheduled t = reconcileScheduled s"
    "staleClientSweepInterval t = staleClientSweepInterval s"
    "mirrorSweepDone t = mirrorSweepDone s" "mirrorSweepOnce t = mirrorSweepOnce s"
    "logLevel t = logLevel s" "timers t = timers s" "iface_refs t = iface_refs s"
  using assms by (auto simp: mirror_step_def iface_refs_def)

lemma mirror_step_keys:
  "mirror_step P s t \<Longrightarrow> k \<in> set (mirroredNeighs t) \<Longrightarrow> k \<in> set (mirroredNeighs s) \<or> P k"
  "mirror_step P s t \<Longrightarrow> distinct (mirroredNeighs s) \<Longrightarrow> distinct (mirroredNeighs t)"
  by (auto simp: mirror_step_def)

context call_op
begin

lemma as_mirror_step: "mirror_step P s (f s)"
proof (rule only_callsE [of s])
  fix cs
  assume "f s = s\<lparr>trace := trace s @ cs\<rparr>"
  then show ?thesis
    by (intro mirror_stepI [where ms = "mirroredNeighs s" and cs = cs]) simp_all
qed

lemma extend_mirror: "mirror_step P s t \<Longrightarrow> mirror_step P s (f t)"
  by (rule mirror_step_trans [OF _ as_mirror_step])

end

locale mirror_op =
  fixes f :: "state \<Rightarrow> state" and P :: "mirroredNeighKey \<Rightarrow> bool"
  assumes only_mirror: "mirror_step P s (f s)"
begin

lemmas mirror_frame [simp] = mirror_step_frame [OF only_mirror]

lemma extend_mirror: "mirror_step P s t \<Longrightarrow> mirror_step P s (f t)"
  by (rule mirror_step_trans [OF _ only_mirror])

end

sublocale call_op \<subseteq> calls_as_mirror: mirror_op f P for P
  by unfold_locales (rule as_mirror_step)

interpretation unmirrorClient: mirror_op "unmirrorClient E a r" P for E a r P
proof
  show "mirror_step P s (unmirrorClient E a r s)" for s
    by (auto simp: unmirrorClient_def mirror_step_refl mirror_step_delete
        intro!: deleteNeigh4.extend_mirror arpMirrorAddr.extend_mirror)
qed

interpretation declineOption: mirror_op "declineOption E r opt" P for E r opt P
proof
  show "mirror_step P s (declineOption E r opt s)" for s
    by (auto simp: declineOption_def mirror_step_refl unmirrorClient.only_mirror split: prod.split)
qed

lemma declineOptions_step: "mirror_step P s (fold (declineOption E r) opts s)"
  by (rule fold_invariant [where I = "mirror_step P s"])
    (auto intro: declineOption.extend_mirror mirror_step_refl)

section \<open>No packet makes the relay panic\<close>

lemma stampRequest_total:
  assumes "240 \<le> length dat"
  shows "\<exists>out. stampRequest dat giaddr = Some out"
  using assms by (simp add: stampRequest_def put_def)

interpretation send_loop: loop_body "relayToMaster E dat out82 have82"
  "\<lambda>c. 240 \<le> length dat \<and> (have82 \<longrightarrow> 240 \<le> length out82)" "mirror_step P s0"
  for E dat out82 have82 P s0
proof
  fix c s
  assume len: "240 \<le> length dat \<and> (have82 \<longrightarrow> 240 \<le> length out82)" and I: "mirror_step P s0 s"
  obtain giaddr ok where g: "relayLinkAddress4 (heap s c) = (giaddr, ok)" by fastforce
  obtain out where out: "stampRequest (if have82 then out82 else dat) giaddr = Some out"
    using stampRequest_total len by (metis (full_types))
  have "mirror_step P s0 (case dhcp (heap s c) of [] \<Rightarrow> s
      | ds # x \<Rightarrow> issue (Sendto (ds_fd ds) out (AsSlice Broadcast) 67) s)"
    using I issue.extend_mirror by (auto split: list.split)
  with I g out show "\<exists>t. relayToMaster E dat out82 have82 c s = Some t \<and> mirror_step P s0 t"
    by (simp add: relayToMaster_def sendDHCPv4_eq)
qed

lemma insertAgentInfo_total:
  assumes "240 \<le> length dat"
  shows "\<exists>out ok. insertAgentInfo dat i = Some (out, ok) \<and> (ok \<longrightarrow> 240 \<le> length out)"
  using assms by (auto simp: insertAgentInfo_eq split: ending.split)

lemma releaseClient_step:
  assumes "240 \<le> length dat"
  shows "\<exists>t. releaseClient E dat r s = Some t \<and> mirror_step P s t"
  using assms by (auto simp: releaseClient_def mirror_step_refl unmirrorClient.only_mirror
      split: prod.split)

lemma relayClientRequest_step:
  assumes len: "240 \<le> length dat"
  shows "\<exists>t. relayClientRequest E dat r s = Some t \<and> mirror_step P s t"
proof (cases "dhcpMaxHops \<le> dat ! 3")
  case True
  then show ?thesis
    using len by (simp add: relayClientRequest_def mirror_step_refl)
next
  case False
  obtain opts where opts: "parseDHCPOptions dat = Some opts"
    using parseDHCPOptions_total [OF len] by blast
  define mt where "mt = fst (dhcpOptionByte opts dhcpOptMsgType)"
  obtain s1 where s1: "(if mt = dhcpMsgRelease then releaseClient E dat r s
      else if mt = dhcpMsgDecline then Some (fold (declineOption E r) opts s)
      else Some s) = Some s1" and step: "mirror_step P s s1"
    using releaseClient_step [OF len] declineOptions_step mirror_step_refl by (metis (full_types))
  obtain out82 have82 where ins: "insertAgentInfo dat (Ifindex (heap s1 r)) = Some (out82, have82)"
    and l82: "have82 \<longrightarrow> 240 \<le> length out82"
    using insertAgentInfo_total [OF len] by blast
  obtain t where "fold_opt (relayToMaster E dat out82 have82) (iface_refs s1) s1 = Some t"
    and "mirror_step P s t"
    using send_loop.loop_ok [of dat have82 out82 "iface_refs s1" P s s1 E] len l82 step
    by (auto simp: list_all_iff)
  moreover have "relayClientRequest E dat r s = Option.bind
      (if mt = dhcpMsgRelease then releaseClient E dat r s
       else if mt = dhcpMsgDecline then Some (fold (declineOption E r) opts s)
       else Some s)
      (\<lambda>s1. Option.bind (insertAgentInfo dat (Ifindex (heap s1 r)))
        (\<lambda>(out82, have82). fold_opt (relayToMaster E dat out82 have82) (iface_refs s1) s1))"
    using False len opts by (simp add: relayClientRequest_def mt_def Let_def)
  ultimately show ?thesis
    by (simp only: s1 ins Option.bind.bind_lunit prod.case) simp
qed

definition client_key :: "mirroredNeighKey \<Rightarrow> bool" where
  \<comment> \<open>the addresses the relay mirrors\<close>
  "client_key k \<longleftrightarrow> Is4 (mk_addr k) \<and> \<not> IsLoopback (mk_addr k) \<and> \<not> IsMulticast (mk_addr k) \<and>
     \<not> IsLinkLocalUnicast (mk_addr k)"

lemma assignedAddr_total:
  assumes "240 \<le> length dat"
  shows "\<exists>a ok. assignedAddr dat = Some (a, ok) \<and> (ok \<longrightarrow> client_key \<lparr>mk_addr = a, mk_ifindex = i\<rparr>)"
  using assms by (auto simp: assignedAddr_def client_key_def split: prod.split)

lemma pickSlave_total: "\<exists>sel'. pickSlave s opt sel = Some sel'"
proof -
  obtain i ok where "parseCircuitID (opt_data opt) = Some (i, ok)"
    using parseCircuitID_total by blast
  then show ?thesis
    by (simp add: pickSlave_def)
qed

lemma pickSlave_registered:
  assumes "pickSlave s opt sel = Some sel'"
    and "case sel of None \<Rightarrow> True | Some r \<Rightarrow> r \<in> set (iface_refs s) \<and> \<not> Master (heap s r)"
  shows "case sel' of None \<Rightarrow> True | Some r \<Rightarrow> r \<in> set (iface_refs s) \<and> \<not> Master (heap s r)"
  using assms
  by (auto simp: pickSlave_def split: if_splits option.splits Option.bind_splits
      dest: ifaceByIndex_SomeD)

interpretation slave_loop: loop_body "pickSlave s" "\<lambda>opt. True"
  "\<lambda>sel. case sel of None \<Rightarrow> True | Some r \<Rightarrow> r \<in> set (iface_refs s) \<and> \<not> Master (heap s r)"
  for s
  by unfold_locales (use pickSlave_total pickSlave_registered in blast)

lemma replyPayload_total:
  assumes "240 \<le> length dat"
  shows "\<exists>p. replyPayload dat i = Some p"
proof -
  obtain p where p: "stripAgentInfo dat = Some p"
    using stripAgentInfo_eq [OF assms] by blast
  have "240 \<le> length p"
    using strip_items(1) [OF assms p] assms by (metis length_take min.absorb_iff2 min.commute nle_le)
  then show ?thesis
    using p relayLinkAddress4_Is4 [of i]
    by (auto simp: replyPayload_def rewriteGateway_eq split: prod.split option.split)
qed

lemma learnClient_step:
  assumes "240 \<le> length dat" and "client_key \<lparr>mk_addr = a, mk_ifindex = Ifindex (heap s r)\<rparr>"
  shows "\<exists>t. learnClient E dat a r s = Some t \<and> mirror_step client_key s t"
  using assms
  by (auto simp: learnClient_def Let_def
      intro!: seedNeighbor4.extend_mirror arpMirrorAddr.extend_mirror mirror_step_add mirror_step_refl)

interpretation reply_loop: loop_body "relayToTarget E dat mt yi hasYi flags"
  "\<lambda>r. 240 \<le> length dat \<and> (hasYi \<longrightarrow> (\<forall>i. client_key \<lparr>mk_addr = yi, mk_ifindex = i\<rparr>))"
  "mirror_step client_key s0"
  for E dat mt yi hasYi flags s0
proof
  fix r s
  assume good: "240 \<le> length dat \<and> (hasYi \<longrightarrow> (\<forall>i. client_key \<lparr>mk_addr = yi, mk_ifindex = i\<rparr>))"
    and I: "mirror_step client_key s0 s"
  obtain p where p: "replyPayload dat (heap s r) = Some p"
    using replyPayload_total good by blast
  obtain s1 where s1: "(if mt = dhcpMsgAck \<and> hasYi then learnClient E dat yi r s else Some s) = Some s1"
    and I1: "mirror_step client_key s s1"
    using learnClient_step [of dat yi s r E] good mirror_step_refl by (metis (full_types))
  define dest where "dest = (if flags AND bootpBroadcastFlag = 0 \<and> mt = dhcpMsgAck \<and> hasYi
                 then yi else Broadcast)"
  have "Is4 dest"
    using good by (auto simp: dest_def client_key_def)
  then have send: "sendDHCPv4 E r dest dhcpv4ClientPort p s1 = Some
      (case dhcp (heap s1 r) of [] \<Rightarrow> s1
       | ds # x \<Rightarrow> issue (Sendto (ds_fd ds) p (AsSlice dest) dhcpv4ClientPort) s1)"
    by (rule sendDHCPv4_eq)
  have "mirror_step client_key s0 (case dhcp (heap s1 r) of [] \<Rightarrow> s1
       | ds # x \<Rightarrow> issue (Sendto (ds_fd ds) p (AsSlice dest) dhcpv4ClientPort) s1)"
    using mirror_step_trans [OF I I1] issue.extend_mirror by (auto split: list.split)
  moreover have "relayToTarget E dat mt yi hasYi flags r s =
      Option.bind (if mt = dhcpMsgAck \<and> hasYi then learnClient E dat yi r s else Some s)
        (sendDHCPv4 E r dest dhcpv4ClientPort p)"
    by (simp add: relayToTarget_def p dest_def Let_def)
  ultimately show "\<exists>t. relayToTarget E dat mt yi hasYi flags r s = Some t \<and> mirror_step client_key s0 t"
    by (simp only: s1 send Option.bind.bind_lunit) simp
qed

lemma relayServerResponse_step:
  assumes len: "240 \<le> length dat"
  shows "\<exists>t. relayServerResponse E dat s = Some t \<and> mirror_step client_key s t"
proof -
  obtain opts where opts: "parseDHCPOptions dat = Some opts"
    using parseDHCPOptions_total [OF len] by blast
  obtain sel where sel: "fold_opt (pickSlave s) opts None = Some sel"
    using slave_loop.loop_ok [of opts s None] by (auto simp: list_all_iff)
  obtain yi ok where yi: "assignedAddr dat = Some (yi, ok)"
    and good: "ok \<longrightarrow> (\<forall>i. client_key \<lparr>mk_addr = yi, mk_ifindex = i\<rparr>)"
    using assignedAddr_total [OF len] by (fastforce simp: client_key_def)
  obtain t where "fold_opt (relayToTarget E dat (fst (dhcpOptionByte opts dhcpOptMsgType)) yi ok
      (be_Uint16 (dat ! 10) (dat ! 11))) (replyTargets s sel) s = Some t"
    and "mirror_step client_key s t"
    using reply_loop.loop_ok [of dat ok yi "replyTargets s sel" s s] len good mirror_step_refl
    by (fastforce simp: list_all_iff)
  then show ?thesis
    using len opts sel yi mirror_step_refl by (simp add: relayServerResponse_def Let_def)
qed

definition accepted :: "dhcpSock \<Rightarrow> bytes \<Rightarrow> state \<Rightarrow> bool" where
  \<comment> \<open>the packets \<open>handleDHCPv4\<close> looks at: a live socket of a relaying interface, and an
      Ethernet DHCP packet\<close>
  "accepted ds dat s \<longleftrightarrow>
     ifaceHasDHCPSock (heap s (ds_iface ds)) ds \<and> DHCPv4 (heap s (ds_iface ds)) = ModeRelay \<and>
     240 \<le> length dat \<and> dat ! 1 = 1 \<and> dat ! 2 = 6 \<and> take 4 (drop 236 dat) = [99, 130, 83, 99]"

lemma handleDHCPv4_eq:
  "handleDHCPv4 E ds src dat s =
     (if accepted ds dat s \<and> dat ! 0 = 1 \<and> \<not> Master (heap s (ds_iface ds))
      then relayClientRequest E dat (ds_iface ds) s
      else if accepted ds dat s \<and> dat ! 0 = 2 \<and> Master (heap s (ds_iface ds))
      then relayServerResponse E dat s
      else Some s)"
proof (cases "length dat < 240")
  case True
  then show ?thesis
    by (simp add: handleDHCPv4_def accepted_def Let_def)
next
  case False
  then have "idx dat 0 = Some (dat ! 0)"
    by (intro idx_Some) auto
  with False show ?thesis
    by (simp add: handleDHCPv4_def accepted_def Let_def)
qed

lemma handleDHCPv4_step: "\<exists>t. handleDHCPv4 E ds src dat s = Some t \<and> mirror_step client_key s t"
  using relayClientRequest_step [of dat E "ds_iface ds" s client_key]
    relayServerResponse_step [of dat E s] mirror_step_refl [of client_key s]
  by (auto simp: handleDHCPv4_eq accepted_def)

end
