(* ===== verification/Services.thy ===== *)
theory Services
  imports Dhcp_Relay
begin

text \<open>
  Per-interface services (\<open>internal/relay/config.go\<close>, and \<open>clearMirroredState\<close> of
  \<open>netlink.go\<close>): reading the addresses of an interface from the kernel, enabling and tearing down
  its two relay services, forgetting its mirrored clients.
\<close>

section \<open>The operations\<close>

definition addr4_of :: "NlAddr \<Rightarrow> IPAddr list" where
  \<comment> \<open>the body of the loop of \<open>fetchAddr4\<close>: no or one entry\<close>
  "addr4_of a = (case AddrFromSlice (To4 (a_IP a)) of (ip, ok) \<Rightarrow>
     if \<not> ok then []
     else [\<lparr>ip_Addr = ip, ip_PrefixLen = fst (MaskSize (a_Mask a)) mod 256,
            ip_Tentative = (a_Flags a AND IFA_F_TENTATIVE \<noteq> 0)\<rparr>])"

definition fetchAddr4 :: "env \<Rightarrow> int \<Rightarrow> state \<Rightarrow> IPAddr list \<times> state" where
  "fetchAddr4 E ifindex s =
     (let s1 = issue (LinkByIndex ifindex) s
      in case ans_linkByIndex E (trace s) ifindex of
           Inl e \<Rightarrow> ([], s1)
         | Inr link \<Rightarrow>
             (let s2 = issue (AddrList (la_Index link)) s1
              in case ans_addrList E (trace s1) (la_Index link) of
                   Inl e \<Rightarrow> ([], s2)
                 | Inr addrs \<Rightarrow> (concat (map addr4_of addrs), s2)))"

definition refreshInterfaceAddresses :: "env \<Rightarrow> iref \<Rightarrow> state \<Rightarrow> state" where
  "refreshInterfaceAddresses E r s =
     (case fetchAddr4 E (Ifindex (heap s r)) s of
        (as, s1) \<Rightarrow> set_iface r (\<lambda>i. i\<lparr>Addr4s := as\<rparr>) s1)"

definition disableServices :: "env \<Rightarrow> iref \<Rightarrow> state \<Rightarrow> state" where
  "disableServices E r s = snd (dhcpv4Setup E r False (snd (arpSetup E r False s)))"

definition reloadServices :: "env \<Rightarrow> iref \<Rightarrow> state \<Rightarrow> state" where
  "reloadServices E r s =
     (if Running (heap s r)
      then (let s1 = snd (arpSetup E r (ARP (heap s r) \<noteq> ModeDisabled) s)
            in snd (dhcpv4Setup E r (DHCPv4 (heap s1 r) \<noteq> ModeDisabled) s1))
      else snd (dhcpv4Setup E r False (snd (arpSetup E r False s))))"

definition clearMirroredKey :: "env \<Rightarrow> iref \<Rightarrow> mirroredNeighKey \<Rightarrow> state \<Rightarrow> state" where
  "clearMirroredKey E r k s =
     (if mk_ifindex k \<noteq> Ifindex (heap s r) then s
      else delete_mirrored k (arpMirrorAddr E (mk_addr k) r False s))"

definition clearMirroredState :: "env \<Rightarrow> iref \<Rightarrow> state \<Rightarrow> state" where
  "clearMirroredState E r s = fold (clearMirroredKey E r) (mirroredNeighs s) s"

definition closeInterface :: "env \<Rightarrow> iref \<Rightarrow> state \<Rightarrow> state" where
  "closeInterface E r s =
     (let s1 = s\<lparr>interfaces := filter (\<lambda>(n, r'). n \<noteq> Name (heap s r)) (interfaces s)\<rparr>
      in snd (dhcpv4Setup E r False (snd (arpSetup E r False s1))))"

section \<open>Frames\<close>

interpretation fetchAddr4: call_op "\<lambda>s. snd (fetchAddr4 E i s)" for E i
proof (rule call_op_choice)
  let ?g = "\<lambda>s. case ans_linkByIndex E (trace s) i of
      Inl e \<Rightarrow> issue (LinkByIndex i)
    | Inr link \<Rightarrow> (\<lambda>s'. issue (AddrList (la_Index link)) (issue (LinkByIndex i) s'))"
  show "call_op (?g s)" for s
    by (auto intro: call_op_issue call_op_comp [OF call_op_issue call_op_issue] split: sum.split)
  show "snd (fetchAddr4 E i s) = ?g s s" for s
    by (simp add: fetchAddr4_def Let_def split: sum.split)
qed

interpretation disableServices: sock_op "disableServices E r" r for E r
  by unfold_locales
    (simp add: disableServices_def, intro dhcpv4Setup.extend arpSetup.extend_socks sock_step_refl)

interpretation reloadServices: sock_op "reloadServices E r" r for E r
  by unfold_locales
    (auto simp: reloadServices_def Let_def
      intro!: dhcpv4Setup.extend arpSetup.extend_socks sock_step_refl)

interpretation clearMirroredKey: mirror_op "clearMirroredKey E r k" P for E r k P
proof
  show "mirror_step P s (clearMirroredKey E r k s)" for s
    using mirror_step_trans [OF arpMirrorAddr.as_mirror_step mirror_step_delete]
    by (auto simp: clearMirroredKey_def mirror_step_refl)
qed

interpretation clearMirroredState: mirror_op "clearMirroredState E r" P for E r P
proof
  show "mirror_step P s (clearMirroredState E r s)" for s
    unfolding clearMirroredState_def
    by (rule fold_invariant [where I = "mirror_step P s"])
      (auto intro: clearMirroredKey.extend_mirror mirror_step_refl)
qed

lemma refreshInterfaceAddresses_frame [simp]:
  "nextRef (refreshInterfaceAddresses E r s) = nextRef s"
  "interfaces (refreshInterfaceAddresses E r s) = interfaces s"
  "nextSock (refreshInterfaceAddresses E r s) = nextSock s"
  "mirroredNeighs (refreshInterfaceAddresses E r s) = mirroredNeighs s"
  "reconcileScheduled (refreshInterfaceAddresses E r s) = reconcileScheduled s"
  "timers (refreshInterfaceAddresses E r s) = timers s"
  "iface_refs (refreshInterfaceAddresses E r s) = iface_refs s"
  "r' \<noteq> r \<Longrightarrow> heap (refreshInterfaceAddresses E r s) r' = heap s r'"
  "\<exists>as. heap (refreshInterfaceAddresses E r s) r = (heap s r)\<lparr>Addr4s := as\<rparr>"
  by (auto simp: refreshInterfaceAddresses_def case_prod_beta)

lemma refreshInterfaceAddresses_heap [simp]:
  "Name (heap (refreshInterfaceAddresses E r s) r') = Name (heap s r')"
  "Ifname (heap (refreshInterfaceAddresses E r s) r') = Ifname (heap s r')"
  "Ifindex (heap (refreshInterfaceAddresses E r s) r') = Ifindex (heap s r')"
  "Running (heap (refreshInterfaceAddresses E r s) r') = Running (heap s r')"
  "Master (heap (refreshInterfaceAddresses E r s) r') = Master (heap s r')"
  "LearnRoutes (heap (refreshInterfaceAddresses E r s) r') = LearnRoutes (heap s r')"
  "Inuse (heap (refreshInterfaceAddresses E r s) r') = Inuse (heap s r')"
  "DHCPv4 (heap (refreshInterfaceAddresses E r s) r') = DHCPv4 (heap s r')"
  "ARP (heap (refreshInterfaceAddresses E r s) r') = ARP (heap s r')"
  "dhcp (heap (refreshInterfaceAddresses E r s) r') = dhcp (heap s r')"
  by (auto simp: refreshInterfaceAddresses_def case_prod_beta)

lemma addr4_of_Is4: "a \<in> set (addr4_of n) \<Longrightarrow> Is4 (ip_Addr a)"
  using AddrFromSlice_To4 [of "a_IP n"] by (auto simp: addr4_of_def split: prod.splits if_splits)

section \<open>Forgetting the clients of an interface\<close>

lemma clear_keys:
  "set (mirroredNeighs (fold (clearMirroredKey E r) ks s)) =
     set (mirroredNeighs s) - {k \<in> set ks. mk_ifindex k = Ifindex (heap s r)} \<and>
   proxies (trace (fold (clearMirroredKey E r) ks s)) = proxies (trace s) -
     (\<Union>k \<in> {k \<in> set ks. mk_ifindex k = Ifindex (heap s r)}.
        mirror_entries s r (mk_addr k) (iface_refs s))"
proof (induction ks arbitrary: s)
  case Nil
  then show ?case by simp
next
  case (Cons k ks)
  let ?t = "clearMirroredKey E r k s"
  have h: "heap ?t = heap s" "iface_refs ?t = iface_refs s"
    by simp_all
  have e: "mirror_entries ?t r = mirror_entries s r"
    using mirror_entries_heap [OF h(1)] by simp
  have keys: "set (mirroredNeighs ?t) = set (mirroredNeighs s) -
      (if mk_ifindex k = Ifindex (heap s r) then {k} else {})"
    by (simp add: clearMirroredKey_def delete_mirrored_def)
  have prox: "proxies (trace ?t) = proxies (trace s) -
      (if mk_ifindex k = Ifindex (heap s r) then mirror_entries s r (mk_addr k) (iface_refs s) else {})"
    by (simp add: clearMirroredKey_def delete_mirrored_def arpMirrorAddr_requests)
  show ?case
    by (simp only: fold_simps Cons keys prox h e) auto
qed

lemma clearMirroredState_keys:
  "set (mirroredNeighs (clearMirroredState E r s)) =
     {k \<in> set (mirroredNeighs s). mk_ifindex k \<noteq> Ifindex (heap s r)}"
  by (auto simp: clearMirroredState_def clear_keys)

lemma clearMirroredState_proxies:
  "proxies (trace (clearMirroredState E r s)) = proxies (trace s) -
     (\<Union>k \<in> {k \<in> set (mirroredNeighs s). mk_ifindex k = Ifindex (heap s r)}.
        mirror_entries s r (mk_addr k) (iface_refs s))"
  by (simp add: clearMirroredState_def clear_keys)

end
