(* ===== verification/Netlink_Events.thy ===== *)
theory Netlink_Events
  imports Services
begin

text \<open>
  The reactions to kernel events and timers (\<open>internal/relay/netlink.go\<close>): link, address,
  neighbour and route events, the periodic sweep, and the debounced reconciliation. Each runs on
  the engine goroutine as one closure and cannot panic, so each is a function on the state.
\<close>

section \<open>The operations\<close>

definition probeNeighbor :: "env \<Rightarrow> Addr \<Rightarrow> int \<Rightarrow> state \<Rightarrow> state" where
  "probeNeighbor E a ifindex s = snd (perform E (NeighSet (neigh4 a ifindex NUD_PROBE 0 [])) s)"

definition sweepNeigh :: "env \<Rightarrow> iref \<Rightarrow> Neigh \<Rightarrow> state \<times> Addr list \<Rightarrow> state \<times> Addr list" where
  \<comment> \<open>the body of the first loop of \<open>sweepIfaceFailedAndOrphans\<close>; the list is the set \<open>live\<close>\<close>
  "sweepNeigh E r n sl = (case sl of (s, live) \<Rightarrow>
     if n_Flags n AND NTF_PROXY \<noteq> 0 then (s, live)
     else (case AddrFromSlice (To4 (n_IP n)) of (a, ok) \<Rightarrow>
       if \<not> ok then (s, live)
       else if IsLoopback a \<or> IsMulticast a then (s, live)
       else if n_State n AND NUD_FAILED \<noteq> 0 then
         (let s1 = (if key_of s a r \<in> set (mirroredNeighs s)
                    then arpMirrorAddr E a r False (delete_mirrored (key_of s a r) s) else s)
          in (deleteNeigh4 E a (Ifindex (heap s1 r)) s1, live))
       else if IsLinkLocalUnicast a then (s, live)
       else (if n_State n AND NUD_STALE \<noteq> 0 then probeNeighbor E a (Ifindex (heap s r)) s else s,
             List.insert a live)))"

definition ownedHostRoute :: "int \<Rightarrow> Route \<Rightarrow> IPNet option" where
  \<comment> \<open>the destination of a /32 route with our metric on the interface\<close>
  "ownedHostRoute ifindex rt =
     (if r_LinkIndex rt \<noteq> ifindex \<or> r_Priority rt \<noteq> ourRouteMetric then None
      else (case r_Dst rt of
              None \<Rightarrow> None
            | Some d \<Rightarrow> if MaskSize (net_Mask d) = (32, 32) then Some d else None))"

definition sweepRoute :: "env \<Rightarrow> iref \<Rightarrow> Addr list \<Rightarrow> Route \<Rightarrow> state \<Rightarrow> state" where
  \<comment> \<open>the body of the second loop of \<open>sweepIfaceFailedAndOrphans\<close>\<close>
  "sweepRoute E r live rt s =
     (case ownedHostRoute (Ifindex (heap s r)) rt of
        None \<Rightarrow> s
      | Some d \<Rightarrow> (case AddrFromSlice (To4 (net_IP d)) of (a, ok) \<Rightarrow>
          if \<not> ok then s
          else if a \<in> set live then s
          else arpMirrorAddr E a r False (delete_mirrored (key_of s a r) s)))"

definition sweepIfaceFailedAndOrphans :: "env \<Rightarrow> iref \<Rightarrow> state \<Rightarrow> state" where
  "sweepIfaceFailedAndOrphans E r s =
     (let s1 = issue (LinkByIndex (Ifindex (heap s r))) s
      in case ans_linkByIndex E (trace s) (Ifindex (heap s r)) of
           Inl e \<Rightarrow> s1
         | Inr link \<Rightarrow>
             (let s2 = issue (NeighList (la_Index link)) s1
              in case ans_neighList E (trace s1) (la_Index link) of
                   Inl e \<Rightarrow> s2
                 | Inr neighs \<Rightarrow>
                     (case fold (sweepNeigh E r) neighs (s2, []) of (s3, live) \<Rightarrow>
                       (let s4 = issue (RouteList (la_Index link)) s3
                        in case ans_routeList E (trace s3) (la_Index link) of
                             Inl e \<Rightarrow> s4
                           | Inr rts \<Rightarrow> fold (sweepRoute E r live) rts s4))))"

definition sweepIface :: "env \<Rightarrow> iref \<Rightarrow> state \<Rightarrow> state" where
  "sweepIface E r s = (if ARP (heap s r) \<noteq> ModeRelay then s else sweepIfaceFailedAndOrphans E r s)"

definition sweepFailedAndOrphans :: "env \<Rightarrow> state \<Rightarrow> state" where
  "sweepFailedAndOrphans E s = fold (sweepIface E) (iface_refs s) s"

definition reconcileDebounce :: "64 word" where [simp]: "reconcileDebounce = 2000000000"

definition scheduleReconcile :: "state \<Rightarrow> state" where
  "scheduleReconcile s =
     (if reconcileScheduled s then s
      else s\<lparr>reconcileScheduled := True,
             timers := timers s @ [(reconcileDebounce, ReconcileTimer)]\<rparr>)"

definition handleRouteEvent :: "RouteUpdate \<Rightarrow> state \<Rightarrow> state" where
  "handleRouteEvent u s =
     (if ru_Type u \<noteq> RTM_DELROUTE \<or> r_Priority (ru_Route u) \<noteq> ourRouteMetric then s
      else (case r_Dst (ru_Route u) of
              None \<Rightarrow> s
            | Some d \<Rightarrow>
                if MaskSize (net_Mask d) \<noteq> (32, 32) then s
                else (case ifaceByIndex s (r_LinkIndex (ru_Route u)) of
                        None \<Rightarrow> s
                      | Some r \<Rightarrow> if ARP (heap s r) \<noteq> ModeRelay then s else scheduleReconcile s)))"

definition reconcileIface :: "env \<Rightarrow> iref \<Rightarrow> state \<Rightarrow> state" where
  "reconcileIface E r s =
     (if ARP (heap s r) \<noteq> ModeRelay then s else snd (setProxyARP E (Ifname (heap s r)) True s))"

definition reconcileKey :: "env \<Rightarrow> mirroredNeighKey \<Rightarrow> state \<Rightarrow> state" where
  "reconcileKey E k s = (case ifaceByIndex s (mk_ifindex k) of
     None \<Rightarrow> s | Some r \<Rightarrow> arpMirrorAddr E (mk_addr k) r True s)"

definition reconcileKernelState :: "env \<Rightarrow> state \<Rightarrow> state" where
  "reconcileKernelState E s =
     (let s1 = fold (reconcileIface E) (iface_refs s) s
      in fold (reconcileKey E) (mirroredNeighs s1) s1)"

definition runReconcile :: "env \<Rightarrow> state \<Rightarrow> state" where
  \<comment> \<open>the closure the reconcile timer posts\<close>
  "runReconcile E s = reconcileKernelState E (s\<lparr>reconcileScheduled := False\<rparr>)"

definition handleLinkEvent :: "env \<Rightarrow> LinkUpdate \<Rightarrow> state \<Rightarrow> state" where
  "handleLinkEvent E u s =
     (case ifaceByIfname s (lu_Name u) of
        None \<Rightarrow> s
      | Some r \<Rightarrow>
          if lu_Type u = RTM_DELLINK then
            (if Ifindex (heap s r) \<noteq> lu_Index u then s
             else set_iface r (\<lambda>i. i\<lparr>Ifindex := 0, Running := False, Addr4s := []\<rparr>)
                    (clearMirroredState E r (disableServices E r s)))
          else
            (let nowRunning = (lu_Flags u AND IFF_RUNNING \<noteq> 0)
             in if Ifindex (heap s r) = lu_Index u then
                  (let wasRunning = Running (heap s r);
                       s1 = set_iface r (\<lambda>i. i\<lparr>Running := nowRunning\<rparr>) s
                   in if wasRunning \<noteq> nowRunning
                      then reloadServices E r
                             (if nowRunning then refreshInterfaceAddresses E r s1 else s1)
                      else s1)
                else
                  (let s1 = clearMirroredState E r (disableServices E r s);
                       s2 = set_iface r (\<lambda>i. i\<lparr>Ifindex := lu_Index u, Running := nowRunning\<rparr>) s1
                   in reloadServices E r (refreshInterfaceAddresses E r s2))))"

definition handleAddrEvent :: "env \<Rightarrow> AddrUpdate \<Rightarrow> state \<Rightarrow> state" where
  "handleAddrEvent E u s =
     (if To4 (au_IP u) = [] then s
      else (case ifaceByIndex s (au_LinkIndex u) of
              None \<Rightarrow> s
            | Some r \<Rightarrow> refreshInterfaceAddresses E r s))"

definition resolvedMask :: int where
  "resolvedMask = NUD_REACHABLE OR NUD_STALE OR NUD_DELAY OR NUD_PROBE OR NUD_PERMANENT OR NUD_NOARP"

definition handleNeighEvent :: "env \<Rightarrow> NeighUpdate \<Rightarrow> state \<Rightarrow> state" where
  "handleNeighEvent E u s =
     (if nu_Type u \<noteq> RTM_NEWNEIGH then s
      else (case ifaceByIndex s (n_LinkIndex (nu_Neigh u)) of
        None \<Rightarrow> s
      | Some r \<Rightarrow>
          if ARP (heap s r) \<noteq> ModeRelay then s
          else (case AddrFromSlice (To4 (n_IP (nu_Neigh u))) of (a, ok) \<Rightarrow>
            if \<not> ok then s
            else if IsLoopback a \<or> IsMulticast a \<or> IsLinkLocalUnicast a then s
            else (let k = key_of s a r;
                      mirrored = (k \<in> set (mirroredNeighs s));
                      resolved = (n_State (nu_Neigh u) AND resolvedMask \<noteq> 0);
                      failed = (n_State (nu_Neigh u) AND NUD_FAILED \<noteq> 0)
                  in if resolved \<and> \<not> mirrored then arpMirrorAddr E a r True (add_mirrored k s)
                     else if failed then
                       deleteNeigh4 E a (Ifindex (heap s r))
                         (if mirrored then arpMirrorAddr E a r False (delete_mirrored k s) else s)
                     else s))))"

section \<open>The periodic sweep timer\<close>

definition startMirrorSweep :: "state \<Rightarrow> state" where
  "startMirrorSweep s = s\<lparr>timers := timers s @ [(staleClientSweepInterval s, SweepTimer)]\<rparr>"

definition scheduleMirrorSweep :: "state \<Rightarrow> state" where
  \<comment> \<open>\<open>mirrorSweepOnce\<close> records that the \<open>sync.Once\<close> has run\<close>
  "scheduleMirrorSweep s =
     (if mirrorSweepOnce s then s
      else (let s1 = s\<lparr>mirrorSweepOnce := True\<rparr>
            in if mirrorSweepDone s1 then startMirrorSweep s1 else s1))"

section \<open>Frames\<close>

interpretation probeNeighbor: call_op "probeNeighbor E a i" for E a i
  by (rule call_op_choice [OF call_op_issue]) (simp add: probeNeighbor_def)

lemma fold_sweepNeigh_step:
  "mirror_step P s0 (fst sl) \<Longrightarrow> mirror_step P s0 (fst (fold (sweepNeigh E r) ns sl))"
proof (rule fold_invariant [where I = "\<lambda>sl. mirror_step P s0 (fst sl)"])
  fix n and sl :: "state \<times> Addr list"
  assume "mirror_step P s0 (fst sl)"
  then show "mirror_step P s0 (fst (sweepNeigh E r n sl))"
    by (auto simp: sweepNeigh_def Let_def split: prod.split
        intro!: deleteNeigh4.extend_mirror arpMirrorAddr.extend_mirror probeNeighbor.extend_mirror
        intro: mirror_step_trans mirror_step_delete)
qed

interpretation sweepRoute: mirror_op "sweepRoute E r live rt" P for E r live rt P
proof
  show "mirror_step P s (sweepRoute E r live rt s)" for s
    by (auto simp: sweepRoute_def mirror_step_refl mirror_step_delete split: option.split prod.split
        intro!: arpMirrorAddr.extend_mirror)
qed

lemma fold_sweepRoute_step:
  "mirror_step P s0 s \<Longrightarrow> mirror_step P s0 (fold (sweepRoute E r live) rts s)"
  by (rule fold_invariant [where I = "mirror_step P s0"]) (auto intro: sweepRoute.extend_mirror)

interpretation sweepIfaceFailedAndOrphans: mirror_op "sweepIfaceFailedAndOrphans E r" P for E r P
proof
  fix s
  let ?s1 = "issue (LinkByIndex (Ifindex (heap s r))) s"
  have s2: "mirror_step P s (issue c ?s1)" for c
    by (intro issue.extend_mirror mirror_step_refl)
  show "mirror_step P s (sweepIfaceFailedAndOrphans E r s)"
  proof (cases "ans_linkByIndex E (trace s) (Ifindex (heap s r))")
    case (Inl e)
    then show ?thesis
      by (simp add: sweepIfaceFailedAndOrphans_def Let_def issue.as_mirror_step)
  next
    case (Inr link)
    let ?i = "la_Index link"
    let ?s2 = "issue (NeighList ?i) ?s1"
    show ?thesis
    proof (cases "ans_neighList E (trace ?s1) ?i")
      case (Inl e)
      with Inr s2 show ?thesis
        by (simp add: sweepIfaceFailedAndOrphans_def Let_def)
    next
      case (Inr ns)
      obtain s3 live where f: "fold (sweepNeigh E r) ns (?s2, []) = (s3, live)" by fastforce
      with fold_sweepNeigh_step [of P s "(?s2, [])" E r ns] s2
      have "mirror_step P s s3" by simp
      then have "mirror_step P s (issue c s3)" for c
        by (rule issue.extend_mirror)
      then show ?thesis
        using \<open>ans_linkByIndex E (trace s) (Ifindex (heap s r)) = Inr link\<close> Inr f
        by (auto simp: sweepIfaceFailedAndOrphans_def Let_def fold_sweepRoute_step split: sum.split)
    qed
  qed
qed

interpretation sweepIface: mirror_op "sweepIface E r" P for E r P
  by unfold_locales
    (simp add: sweepIface_def mirror_step_refl sweepIfaceFailedAndOrphans.only_mirror)

interpretation sweepFailedAndOrphans: mirror_op "sweepFailedAndOrphans E" P for E P
proof
  show "mirror_step P s (sweepFailedAndOrphans E s)" for s
    unfolding sweepFailedAndOrphans_def
    by (rule fold_invariant [where I = "mirror_step P s"])
      (auto intro: sweepIface.extend_mirror mirror_step_refl)
qed

interpretation reconcileIface: call_op "reconcileIface E r" for E r
  by (rule call_op_choice [of "\<lambda>s. if ARP (heap s r) \<noteq> ModeRelay then (\<lambda>s'. s')
        else (\<lambda>s'. snd (setProxyARP E (Ifname (heap s r)) True s'))"])
    (simp_all add: call_op_id setProxyARP.call_op_axioms reconcileIface_def)

interpretation reconcileKey: call_op "reconcileKey E k" for E k
  by (rule call_op_choice [of "\<lambda>s. case ifaceByIndex s (mk_ifindex k) of None \<Rightarrow> (\<lambda>s'. s')
        | Some r \<Rightarrow> arpMirrorAddr E (mk_addr k) r True"])
    (auto simp: call_op_id arpMirrorAddr.call_op_axioms reconcileKey_def split: option.split)

interpretation reconcileKernelState: call_op "reconcileKernelState E" for E
proof (rule call_op_choice)
  let ?ifaces = "\<lambda>s. fold (reconcileIface E) (iface_refs s)"
  let ?g = "\<lambda>s s'. fold (reconcileKey E) (mirroredNeighs (?ifaces s s)) (?ifaces s s')"
  have "call_op (?ifaces s)" "call_op (fold (reconcileKey E) ks)" for s ks
    by (auto intro: call_op_fold reconcileIface.call_op_axioms reconcileKey.call_op_axioms)
  then show "call_op (?g s)" for s
    by (rule call_op_comp)
  show "reconcileKernelState E s = ?g s s" for s
    by (simp add: reconcileKernelState_def Let_def)
qed

interpretation handleNeighEvent: mirror_op "handleNeighEvent E u" client_key for E u
proof
  show "mirror_step client_key s (handleNeighEvent E u s)" for s
    by (auto simp: handleNeighEvent_def Let_def mirror_step_refl mirror_step_delete client_key_def
        dest: AddrFromSlice_To4 split: option.split prod.split
        intro!: arpMirrorAddr.extend_mirror deleteNeigh4.extend_mirror mirror_step_add)
qed

end
