(* ===== verification/Relay_Config.thy ===== *)
theory Relay_Config
  imports Log_Level Netlink_Events
begin

text \<open>
  The configuration (\<open>internal/relay/config.go\<close>): what one interface object of the JSON file does
  to the registry, loading the file, and \<open>Reload\<close>. The file is read through \<open>ans_readFile\<close>;
  \<open>encoding/json\<close> is the argument \<open>Unmarshal\<close>, a function from the bytes to an error or to the
  value the code decodes into, whose absent fields are \<open>None\<close>. The interfaces of the file are a
  list of pairs in the order in which Go ranges over the decoded map.
\<close>

section \<open>The operations\<close>

record Config =
  ConfigFile :: string
  LogLevelCmdline :: bool

record jsonGlobal =
  jg_LogLevel :: "int option"
  jg_StaleClientSweepIntervalSeconds :: "int option"

record jsonIface =
  ji_Ifname :: "string option"
  ji_Master :: "bool option"
  ji_ArpproxyRouting :: "bool option"

record jsonRoot =
  jr_Global :: "jsonGlobal option"
  jr_Interfaces :: "(string \<times> jsonIface) list"

type_synonym unmarshal = "bytes \<Rightarrow> string + jsonRoot"

datatype config_error = NoIfname string | NoLink string string errno

definition findOrCreateInterface :: "string \<Rightarrow> state \<Rightarrow> iref \<times> state" where
  "findOrCreateInterface name s = (case map_of (interfaces s) name of
     Some r \<Rightarrow> (r, s)
   | None \<Rightarrow>
       (let r = nextRef s;
            s1 = s\<lparr>heap := (heap s)(r := new_Interface name), nextRef := Suc r\<rparr>;
            s2 = setInterfaceDefaults r s1
        in (r, s2\<lparr>interfaces := interfaces s2 @ [(name, r)]\<rparr>)))"

definition adoptLink :: "env \<Rightarrow> string \<Rightarrow> LinkAttrs \<Rightarrow> iref \<Rightarrow> state \<Rightarrow> state" where
  \<comment> \<open>the part of \<open>parseInterfaceJSON\<close> after a successful \<open>LinkByName\<close>\<close>
  "adoptLink E newIfname link r s =
     (let s1 = (if Ifindex (heap s r) \<noteq> 0 \<and>
                  (Ifname (heap s r) \<noteq> newIfname \<or> Ifindex (heap s r) \<noteq> la_Index link)
                then clearMirroredState E r (disableServices E r s) else s);
          s2 = set_iface r (\<lambda>i. i\<lparr>Ifname := newIfname, Ifindex := la_Index link,
                 Running := la_RawFlags link AND IFF_RUNNING \<noteq> 0\<rparr>) s1
      in refreshInterfaceAddresses E r s2)"

definition configureIface :: "jsonIface \<Rightarrow> Interface \<Rightarrow> Interface" where
  \<comment> \<open>\<open>Inuse\<close> and the optional fields\<close>
  "configureIface obj i = i\<lparr>Inuse := True,
     Master := (case ji_Master obj of Some b \<Rightarrow> b | None \<Rightarrow> Master i),
     LearnRoutes := (case ji_ArpproxyRouting obj of Some b \<Rightarrow> b | None \<Rightarrow> LearnRoutes i)\<rparr>"

definition parseInterfaceJSON ::
  "env \<Rightarrow> string \<Rightarrow> jsonIface \<Rightarrow> state \<Rightarrow> config_error option \<times> state" where
  "parseInterfaceJSON E name obj s =
     (case findOrCreateInterface name s of (r, s1) \<Rightarrow>
       if Ifname (heap s1 r) = '''' \<and> ji_Ifname obj = None then (Some (NoIfname name), s1)
       else (case ji_Ifname obj of
         None \<Rightarrow> (None, set_iface r (configureIface obj) s1)
       | Some newIfname \<Rightarrow>
           (let s2 = issue (LinkByName newIfname) s1
            in case ans_linkByName E (trace s1) newIfname of
                 Inl e \<Rightarrow> (Some (NoLink name newIfname e), s2)
               | Inr link \<Rightarrow> (None, set_iface r (configureIface obj) (adoptLink E newIfname link r s2)))))"

definition secondsToDuration :: "int \<Rightarrow> 64 word" where
  \<comment> \<open>\<open>time.Duration(n) * time.Second\<close>\<close>
  "secondsToDuration n = word_of_int n * 1000000000"

definition applyGlobal :: "Config \<Rightarrow> jsonRoot \<Rightarrow> state \<Rightarrow> state" where
  \<comment> \<open>the two global settings\<close>
  "applyGlobal cfg root s = (case jr_Global root of
     None \<Rightarrow> s
   | Some g \<Rightarrow>
       (let s1 = (case jg_LogLevel g of
                    Some l \<Rightarrow> if \<not> LogLevelCmdline cfg then SetLogLevel l s else s
                  | None \<Rightarrow> s)
        in case jg_StaleClientSweepIntervalSeconds g of
             Some n \<Rightarrow> if n > 0 then s1\<lparr>staleClientSweepInterval := secondsToDuration n\<rparr> else s1
           | None \<Rightarrow> s1))"

definition loadConfigJSON :: "env \<Rightarrow> unmarshal \<Rightarrow> Config \<Rightarrow> state \<Rightarrow> state" where
  "loadConfigJSON E Unmarshal cfg s =
     (let s1 = issue (ReadFile (ConfigFile cfg)) s
      in case ans_readFile E (trace s) (ConfigFile cfg) of
           Inl e \<Rightarrow> s1
         | Inr dat \<Rightarrow>
             (case Unmarshal dat of
                Inl e \<Rightarrow> s1
              | Inr root \<Rightarrow>
                  fold (\<lambda>(name, obj) s. snd (parseInterfaceJSON E name obj s)) (jr_Interfaces root)
                    (applyGlobal cfg root s1)))"

definition resetIface :: "iref \<Rightarrow> state \<Rightarrow> state" where
  \<comment> \<open>the body of the first loop of \<open>Reload\<close>\<close>
  "resetIface r s = set_iface r (\<lambda>i. i\<lparr>Inuse := False\<rparr>) (setInterfaceDefaults r s)"

definition anySlave :: "(Interface \<Rightarrow> Mode) \<Rightarrow> state \<Rightarrow> bool" where
  "anySlave mode s = list_ex (\<lambda>r. \<not> Master (heap s r) \<and> mode (heap s r) = ModeRelay) (iface_refs s)"

definition restrictMaster :: "bool \<Rightarrow> bool \<Rightarrow> Interface \<Rightarrow> Interface" where
  \<comment> \<open>the body of the loop that switches masters off\<close>
  "restrictMaster anyDHCPv4Slave anyARPSlave i =
     (if \<not> Master i then i
      else (let i1 = (if DHCPv4 i = ModeRelay \<and> \<not> anyDHCPv4Slave then i\<lparr>DHCPv4 := ModeDisabled\<rparr> else i)
            in if ARP i1 = ModeRelay \<and> \<not> anyARPSlave then i1\<lparr>ARP := ModeDisabled\<rparr> else i1))"

definition applyIface :: "env \<Rightarrow> iref \<Rightarrow> state \<Rightarrow> state" where
  \<comment> \<open>the body of the last loop of \<open>Reload\<close>\<close>
  "applyIface E r s = (if Inuse (heap s r) then reloadServices E r s else closeInterface E r s)"

definition Reload :: "env \<Rightarrow> unmarshal \<Rightarrow> Config \<Rightarrow> state \<Rightarrow> state" where
  "Reload E Unmarshal cfg s =
     (let s1 = fold resetIface (iface_refs s) s;
          s2 = scheduleMirrorSweep (loadConfigJSON E Unmarshal cfg s1);
          anyDHCPv4Slave = anySlave DHCPv4 s2;
          anyARPSlave = anySlave ARP s2;
          s3 = fold (\<lambda>r. set_iface r (restrictMaster anyDHCPv4Slave anyARPSlave)) (iface_refs s2) s2;
          copyIfaceList = iface_refs s3
      in fold (applyIface E) copyIfaceList s3)"

end
