(* ===== verification/Netlink_Effects.thy ===== *)
theory Netlink_Effects
  imports Netlink_Events Samples
begin

text \<open>
  What the reactions to kernel events achieve, in terms of the requested proxy entries and host
  routes, of the table of mirrored clients and of the calls issued: the sweep against the
  kernel's tables, the reconciliation, neighbour and link events.
\<close>

section \<open>The sweep against the kernel's tables\<close>

text \<open>What the sweep makes of one entry of the neighbour table.\<close>

datatype neigh_class = Skipped | Unlisted Addr | Failed Addr | Live Addr bool

definition classify :: "Neigh \<Rightarrow> neigh_class" where
  "classify n =
     (if n_Flags n AND NTF_PROXY \<noteq> 0 then Skipped
      else (case AddrFromSlice (To4 (n_IP n)) of (a, ok) \<Rightarrow>
        if \<not> ok \<or> IsLoopback a \<or> IsMulticast a then Skipped
        else if n_State n AND NUD_FAILED \<noteq> 0 then Failed a
        else if IsLinkLocalUnicast a then Unlisted a
        else Live a (n_State n AND NUD_STALE \<noteq> 0)))"

definition failed_in :: "Neigh list \<Rightarrow> Addr set" where
  "failed_in ns = {a. Failed a \<in> classify ` set ns}"

definition live_in :: "Neigh list \<Rightarrow> Addr set" where
  "live_in ns = {a. \<exists>st. Live a st \<in> classify ` set ns}"

definition stale_in :: "Neigh list \<Rightarrow> Addr set" where
  "stale_in ns = {a. Live a True \<in> classify ` set ns}"

definition forget :: "env \<Rightarrow> iref \<Rightarrow> Addr \<Rightarrow> state \<Rightarrow> state" where
  \<comment> \<open>drop a client from the table and withdraw its mirror\<close>
  "forget E r a s = arpMirrorAddr E a r False (delete_mirrored (key_of s a r) s)"

lemma forget_effect:
  "heap (forget E r a s) = heap s" "iface_refs (forget E r a s) = iface_refs s"
  "set (mirroredNeighs (forget E r a s)) = set (mirroredNeighs s) - {key_of s a r}"
  "proxies (trace (forget E r a s)) = proxies (trace s) - mirror_entries s r a (iface_refs s)"
  "routes (trace (forget E r a s)) =
     (if \<not> LearnRoutes (heap s r) \<or> IsLinkLocalUnicast a then routes (trace s)
      else routes (trace s) - {(hostNet a, Ifindex (heap s r))})"
  "\<exists>cs. trace (forget E r a s) = trace s @ cs"
proof -
  let ?d = "delete_mirrored (key_of s a r) s"
  have d: "heap ?d = heap s" "iface_refs ?d = iface_refs s" "trace ?d = trace s"
    "set (mirroredNeighs ?d) = set (mirroredNeighs s) - {key_of s a r}"
    by (simp_all add: delete_mirrored_def iface_refs_def)
  then have "mirror_entries ?d r a = mirror_entries s r a"
    using mirror_entries_heap [of ?d s] by simp
  with d arpMirrorAddr_requests [of E a r False ?d] arpMirrorAddr.trace_grows [of E a r False ?d]
  show "heap (forget E r a s) = heap s" "iface_refs (forget E r a s) = iface_refs s"
    "set (mirroredNeighs (forget E r a s)) = set (mirroredNeighs s) - {key_of s a r}"
    "proxies (trace (forget E r a s)) = proxies (trace s) - mirror_entries s r a (iface_refs s)"
    "routes (trace (forget E r a s)) =
     (if \<not> LearnRoutes (heap s r) \<or> IsLinkLocalUnicast a then routes (trace s)
      else routes (trace s) - {(hostNet a, Ifindex (heap s r))})"
    "\<exists>cs. trace (forget E r a s) = trace s @ cs"
    by (simp_all add: forget_def)
qed

lemma sweepNeigh_eq:
  "sweepNeigh E r n (s, live) = (case classify n of
     Skipped \<Rightarrow> (s, live)
   | Unlisted a \<Rightarrow> (s, live)
   | Failed a \<Rightarrow> (deleteNeigh4 E a (Ifindex (heap s r))
       (if key_of s a r \<in> set (mirroredNeighs s) then forget E r a s else s), live)
   | Live a st \<Rightarrow> (if st then probeNeighbor E a (Ifindex (heap s r)) s else s, List.insert a live))"
  by (auto simp: sweepNeigh_def classify_def forget_def Let_def delete_mirrored_def split: prod.split)

lemma requests_probe [simp]:
  "proxies (trace (probeNeighbor E a i s)) = proxies (trace s)"
  "routes (trace (probeNeighbor E a i s)) = routes (trace s)"
  by (simp_all add: probeNeighbor_def neigh4_def)

text \<open>The first loop: failed entries leave the table and the kernel, stale ones are probed.\<close>

definition swept :: "iref \<Rightarrow> state \<Rightarrow> Addr set \<Rightarrow> Addr set \<Rightarrow> state \<Rightarrow> bool" where
  "swept r s gone probed t \<longleftrightarrow>
     heap t = heap s \<and> iface_refs t = iface_refs s \<and>
     set (mirroredNeighs t) = set (mirroredNeighs s) - (\<lambda>a. key_of s a r) ` gone \<and>
     proxies (trace t) = proxies (trace s) -
       (\<Union>a \<in> {a \<in> gone. key_of s a r \<in> set (mirroredNeighs s)}. mirror_entries s r a (iface_refs s)) \<and>
     (\<exists>cs. trace t = trace s @ cs \<and>
       (\<forall>a \<in> gone. NeighDel (neigh4 a (Ifindex (heap s r)) 0 0 []) \<in> set cs) \<and>
       (\<forall>a \<in> probed. NeighSet (neigh4 a (Ifindex (heap s r)) NUD_PROBE 0 []) \<in> set cs))"

lemma swept_step:
  "\<exists>t. sweepNeigh E r n (s, live) = (t, if live_in [n] = {} then live else List.insert (the_elem (live_in [n])) live)
     \<and> swept r s (failed_in [n]) (stale_in [n]) t"
proof (cases "classify n")
  case Skipped
  then show ?thesis by (simp add: sweepNeigh_eq swept_def failed_in_def live_in_def stale_in_def)
next
  case (Unlisted a)
  then show ?thesis by (simp add: sweepNeigh_eq swept_def failed_in_def live_in_def stale_in_def)
next
  case (Failed a)
  obtain cs where "trace (forget E r a s) = trace s @ cs"
    using forget_effect(6) by blast
  moreover from this have "fold proxy_request cs (proxies (trace s)) =
      proxies (trace s) - mirror_entries s r a (iface_refs s)"
    using forget_effect(4) [of E r a s] by simp
  ultimately show ?thesis
    using Failed
    by (auto simp: sweepNeigh_eq swept_def failed_in_def live_in_def stale_in_def forget_effect
        deleteNeigh4_def neigh4_def)
next
  case (Live a st)
  then show ?thesis
    by (cases st) (auto simp: sweepNeigh_eq swept_def failed_in_def live_in_def stale_in_def
        probeNeighbor_def neigh4_def)
qed


lemma swept_trans:
  assumes "swept r s g p t" and "swept r t g' p' u"
  shows "swept r s (g \<union> g') (p \<union> p') u"
proof -
  have h: "heap t = heap s" "iface_refs t = iface_refs s"
    using assms(1) by (simp_all add: swept_def)
  then have "mirror_entries t r = mirror_entries s r"
    using mirror_entries_heap [of t s] by simp
  with assms h show ?thesis
    unfolding swept_def by (auto simp: image_Un)
qed

lemma swept_refl: "swept r s {} {} s"
  by (simp add: swept_def)

lemma in_lists_Cons:
  "failed_in (n # ns) = failed_in [n] \<union> failed_in ns"
  "live_in (n # ns) = live_in [n] \<union> live_in ns"
  "stale_in (n # ns) = stale_in [n] \<union> stale_in ns"
  by (auto simp: failed_in_def live_in_def stale_in_def)

lemma in_lists_Nil [simp]: "failed_in [] = {}" "live_in [] = {}" "stale_in [] = {}"
  by (simp_all add: failed_in_def live_in_def stale_in_def)

lemma live_in_single: "live_in [n] = {} \<or> (\<exists>a. live_in [n] = {a})"
  by (cases "classify n") (auto simp: live_in_def)

lemma sweepNeighs:
  assumes "fold (sweepNeigh E r) ns (s, live) = (t, live')"
  shows "swept r s (failed_in ns) (stale_in ns) t \<and> set live' = set live \<union> live_in ns"
  using assms
proof (induction ns arbitrary: s live)
  case Nil
  then show ?case by (simp add: swept_refl)
next
  case (Cons n ns)
  obtain u where u: "sweepNeigh E r n (s, live) =
      (u, if live_in [n] = {} then live else List.insert (the_elem (live_in [n])) live)"
    and sw: "swept r s (failed_in [n]) (stale_in [n]) u"
    using swept_step by blast
  with Cons.prems Cons.IH have "swept r u (failed_in ns) (stale_in ns) t"
    and "set live' = set (if live_in [n] = {} then live
       else List.insert (the_elem (live_in [n])) live) \<union> live_in ns"
    by fastforce+
  with swept_trans [OF sw] live_in_single [of n] show ?case
    by (auto simp: in_lists_Cons [of n ns])
qed

text \<open>The second loop: the owned host routes without a live neighbour.\<close>

definition owned_addr :: "int \<Rightarrow> Route \<Rightarrow> Addr option" where
  "owned_addr i rt = (case ownedHostRoute i rt of
     None \<Rightarrow> None
   | Some d \<Rightarrow> (case AddrFromSlice (To4 (net_IP d)) of (a, ok) \<Rightarrow> if ok then Some a else None))"

definition owned_in :: "int \<Rightarrow> Route list \<Rightarrow> Addr set" where
  "owned_in i rts = {a. Some a \<in> owned_addr i ` set rts}"

lemma sweepRoute_eq:
  "sweepRoute E r live rt s = (case owned_addr (Ifindex (heap s r)) rt of
     None \<Rightarrow> s | Some a \<Rightarrow> if a \<in> set live then s else forget E r a s)"
  by (simp add: sweepRoute_def owned_addr_def forget_def split: prod.split option.split)

lemma owned_in_Cons:
  "owned_in i (rt # rts) = set_option (owned_addr i rt) \<union> owned_in i rts"
  by (auto simp: owned_in_def image_iff elem_set)

lemma sweepRoutes:
  "heap (fold (sweepRoute E r live) rts s) = heap s \<and>
   set (mirroredNeighs (fold (sweepRoute E r live) rts s)) = set (mirroredNeighs s) -
     (\<lambda>a. key_of s a r) ` (owned_in (Ifindex (heap s r)) rts - set live) \<and>
   proxies (trace (fold (sweepRoute E r live) rts s)) = proxies (trace s) -
     (\<Union>a \<in> owned_in (Ifindex (heap s r)) rts - set live. mirror_entries s r a (iface_refs s)) \<and>
   (\<exists>cs. trace (fold (sweepRoute E r live) rts s) = trace s @ cs)"
proof (induction rts arbitrary: s)
  case Nil
  then show ?case by (simp add: owned_in_def)
next
  case (Cons rt rts)
  let ?t = "sweepRoute E r live rt s" and ?o = "\<lambda>rt. set_option (owned_addr (Ifindex (heap s r)) rt)"
  have h: "heap ?t = heap s" "iface_refs ?t = iface_refs s" by simp_all
  then have m: "mirror_entries ?t r = mirror_entries s r"
    using mirror_entries_heap [of ?t s] by simp
  have k: "set (mirroredNeighs ?t) = set (mirroredNeighs s) - (\<lambda>a. key_of s a r) ` (?o rt - set live)"
    and p: "proxies (trace ?t) = proxies (trace s) -
        (\<Union>a \<in> ?o rt - set live. mirror_entries s r a (iface_refs s))"
    and g: "\<exists>cs. trace ?t = trace s @ cs"
    by (auto simp: sweepRoute_eq forget_effect split: option.split)
  show ?case
    using Cons.IH [of ?t] k p g unfolding fold_simps h m owned_in_Cons [of _ rt rts]
    by (auto simp: image_Un Un_Diff)
qed


text \<open>The sweep of a listed interface is the two loops, with the listing of the routes in between.\<close>

lemma sweepIface_split:
  assumes "ARP (heap s r) = ModeRelay"
    and "ans_linkByIndex E (trace s) (Ifindex (heap s r)) = Inr link" and "la_Index link = Ifindex (heap s r)"
    and "ans_neighList E (trace s @ [LinkByIndex (Ifindex (heap s r))]) (Ifindex (heap s r)) = Inr ns"
  obtains t live cs where "heap t = heap s" and "iface_refs t = iface_refs s" and "set live = live_in ns"
    and "set (mirroredNeighs t) = set (mirroredNeighs s) - (\<lambda>a. key_of s a r) ` failed_in ns"
    and "proxies (trace t) = proxies (trace s) -
       (\<Union>a \<in> {a \<in> failed_in ns. key_of s a r \<in> set (mirroredNeighs s)}. mirror_entries s r a (iface_refs s))"
    and "trace t = trace s @ cs" and "\<forall>a \<in> failed_in ns. NeighDel (neigh4 a (Ifindex (heap s r)) 0 0 []) \<in> set cs"
    and "\<forall>a \<in> stale_in ns. NeighSet (neigh4 a (Ifindex (heap s r)) NUD_PROBE 0 []) \<in> set cs"
    and "sweepIface E r s = (case ans_routeList E (trace t) (Ifindex (heap s r)) of
       Inl e \<Rightarrow> issue (RouteList (Ifindex (heap s r))) t
     | Inr rts \<Rightarrow> fold (sweepRoute E r live) rts (issue (RouteList (Ifindex (heap s r))) t))"
proof -
  let ?i = "Ifindex (heap s r)"
  let ?s2 = "issue (NeighList ?i) (issue (LinkByIndex ?i) s)"
  obtain t live where f: "fold (sweepNeigh E r) ns (?s2, []) = (t, live)" by fastforce
  have sw: "swept r ?s2 (failed_in ns) (stale_in ns) t" and live: "set live = live_in ns"
    using sweepNeighs [OF f] by simp_all
  have "mirror_entries ?s2 r = mirror_entries s r"
    using mirror_entries_heap [of ?s2 s] by simp
  with sw have frame: "heap t = heap s" "iface_refs t = iface_refs s"
    "set (mirroredNeighs t) = set (mirroredNeighs s) - (\<lambda>a. key_of s a r) ` failed_in ns"
    "proxies (trace t) = proxies (trace s) -
       (\<Union>a \<in> {a \<in> failed_in ns. key_of s a r \<in> set (mirroredNeighs s)}. mirror_entries s r a (iface_refs s))"
    by (simp_all add: swept_def)
  obtain cs where cs: "trace t = trace s @ (LinkByIndex ?i # NeighList ?i # cs)"
    "\<forall>a \<in> failed_in ns. NeighDel (neigh4 a ?i 0 0 []) \<in> set cs"
    "\<forall>a \<in> stale_in ns. NeighSet (neigh4 a ?i NUD_PROBE 0 []) \<in> set cs"
    using sw by (auto simp: swept_def)
  have "sweepIface E r s = (case ans_routeList E (trace t) ?i of Inl e \<Rightarrow> issue (RouteList ?i) t
      | Inr rts \<Rightarrow> fold (sweepRoute E r live) rts (issue (RouteList ?i) t))"
    using assms f by (simp add: sweepIface_def sweepIfaceFailedAndOrphans_def Let_def)
  with that [OF frame(1,2) live frame(3,4) cs(1)] cs(2,3) show thesis
    by simp
qed

lemma sweep_orphans:
  fixes s t :: state
  assumes "heap t = heap s" and "iface_refs t = iface_refs s" and "i = Ifindex (heap s r)"
    and "u = (case ans of Inl e \<Rightarrow> issue (RouteList i) t | Inr rts \<Rightarrow> fold (sweepRoute E r live) rts (issue (RouteList i) t))"
    and "orphans = (case ans of Inl e \<Rightarrow> {} | Inr rts \<Rightarrow> owned_in i rts - set live)"
  shows "set (mirroredNeighs u) = set (mirroredNeighs t) - (\<lambda>a. key_of s a r) ` orphans \<and>
    proxies (trace u) = proxies (trace t) - (\<Union>a \<in> orphans. mirror_entries s r a (iface_refs s)) \<and>
    (\<exists>ds. trace u = trace t @ RouteList i # ds)"
proof (cases ans)
  case (Inl e)
  then show ?thesis by (simp add: assms(4,5))
next
  case (Inr rts)
  have "mirror_entries (issue (RouteList i) t) r = mirror_entries s r"
    using mirror_entries_heap [of "issue (RouteList i) t" s] assms(1) by simp
  with Inr show ?thesis
    using sweepRoutes [of E r live rts "issue (RouteList i) t"] by (auto simp: assms)
qed

text \<open>C9: The periodic sweep of a relaying interface brings the daemon in line with the kernel's tables:
  every client whose neighbour entry is FAILED and every client with an owned /32 host route but no
  live neighbour entry leaves the table, and the proxy entries of exactly those are withdrawn (of a
  FAILED entry only if it was mirrored); every FAILED entry is deleted from the kernel and every STALE
  one is probed, before the routes are listed. If the routes cannot be listed the orphans are left.\<close>
theorem sweepIface_effect:
  assumes arp: "ARP (heap s r) = ModeRelay"
    and link: "ans_linkByIndex E (trace s) (Ifindex (heap s r)) = Inr link"
    and same: "la_Index link = Ifindex (heap s r)"
    and list: "ans_neighList E (trace s @ [LinkByIndex (Ifindex (heap s r))]) (Ifindex (heap s r)) = Inr ns"
  shows "\<exists>cs ds orphans.
    trace (sweepIface E r s) = trace s @ cs @ RouteList (Ifindex (heap s r)) # ds \<and>
    (\<forall>a \<in> failed_in ns. NeighDel (neigh4 a (Ifindex (heap s r)) 0 0 []) \<in> set cs) \<and>
    (\<forall>a \<in> stale_in ns. NeighSet (neigh4 a (Ifindex (heap s r)) NUD_PROBE 0 []) \<in> set cs) \<and>
    orphans = (case ans_routeList E (trace s @ cs) (Ifindex (heap s r)) of
        Inl e \<Rightarrow> {} | Inr rts \<Rightarrow> owned_in (Ifindex (heap s r)) rts - live_in ns) \<and>
    set (mirroredNeighs (sweepIface E r s)) =
      set (mirroredNeighs s) - (\<lambda>a. key_of s a r) ` (failed_in ns \<union> orphans) \<and>
    proxies (trace (sweepIface E r s)) = proxies (trace s) -
      (\<Union>a \<in> {a \<in> failed_in ns. key_of s a r \<in> set (mirroredNeighs s)} \<union> orphans.
         mirror_entries s r a (iface_refs s))"
proof (rule sweepIface_split [OF assms])
  fix t live cs
  let ?i = "Ifindex (heap s r)"
  let ?orphans = "case ans_routeList E (trace s @ cs) ?i of Inl e \<Rightarrow> {} | Inr rts \<Rightarrow> owned_in ?i rts - live_in ns"
  assume t: "heap t = heap s" "iface_refs t = iface_refs s" "set live = live_in ns"
    and keys: "set (mirroredNeighs t) = set (mirroredNeighs s) - (\<lambda>a. key_of s a r) ` failed_in ns"
    and prox: "proxies (trace t) = proxies (trace s) -
       (\<Union>a \<in> {a \<in> failed_in ns. key_of s a r \<in> set (mirroredNeighs s)}. mirror_entries s r a (iface_refs s))"
    and cs: "trace t = trace s @ cs"
    and calls: "\<forall>a \<in> failed_in ns. NeighDel (neigh4 a ?i 0 0 []) \<in> set cs"
      "\<forall>a \<in> stale_in ns. NeighSet (neigh4 a ?i NUD_PROBE 0 []) \<in> set cs"
    and eq: "sweepIface E r s = (case ans_routeList E (trace t) ?i of Inl e \<Rightarrow> issue (RouteList ?i) t
       | Inr rts \<Rightarrow> fold (sweepRoute E r live) rts (issue (RouteList ?i) t))"
  have "?orphans = (case ans_routeList E (trace t) ?i of Inl e \<Rightarrow> {} | Inr rts \<Rightarrow> owned_in ?i rts - set live)"
    by (simp only: cs t(3))
  note res = sweep_orphans [OF t(1,2) refl eq this]
  then obtain ds where "trace (sweepIface E r s) = trace t @ RouteList ?i # ds" by blast
  with res keys prox cs calls show ?thesis
    by (intro exI [of _ cs] exI [of _ ds] exI [of _ ?orphans])
      (simp add: image_Un Diff_eq Int_assoc)
qed

lemma sweepIface_effect_witness:
  "\<exists>cs ds. trace (sweepIface (quiet_env\<lparr>ans_neighList := \<lambda>h i.
        Inr [\<lparr>n_LinkIndex = i, n_Family = 2, n_State = NUD_FAILED, n_Flags = 0, n_IP = [192, 168, 1, 50], n_HardwareAddr = []\<rparr>]\<rparr>)
      0 sample_state) = cs @ RouteList 2 # ds \<and> NeighDel (neigh4 sample_client 2 0 0 []) \<in> set cs"
proof -
  let ?n = "\<lambda>i. \<lparr>n_LinkIndex = i, n_Family = 2, n_State = NUD_FAILED, n_Flags = 0, n_IP = [192, 168, 1, 50], n_HardwareAddr = []\<rparr>"
  let ?E = "quiet_env\<lparr>ans_neighList := \<lambda>h i. Inr [?n i]\<rparr>"
  have "sample_client \<in> failed_in [?n 2]"
    by (simp add: failed_in_def classify_def To4_def IsLoopback_def IsMulticast_def sample_client_def)
  then show ?thesis
    using sweepIface_effect [of sample_state 0 ?E "\<lparr>la_Name = '''', la_Index = 2, la_RawFlags = 0x40\<rparr>" "[?n 2]"]
    by (auto simp: quiet_env_def)
qed

section \<open>Reconciliation\<close>

text \<open>
  \<open>emits Q s t\<close>: between \<open>s\<close> and \<open>t\<close> a block of calls was issued that meets \<open>Q\<close>, which also
  sees the history before the block.
\<close>

definition emits :: "(call list \<Rightarrow> call list \<Rightarrow> bool) \<Rightarrow> state \<Rightarrow> state \<Rightarrow> bool" where
  "emits Q s t \<longleftrightarrow> (\<exists>a b c. trace t = trace s @ a @ b @ c \<and> Q (trace s @ a) b)"

lemma emitsI: "trace t = trace s @ a @ b @ c \<Longrightarrow> Q (trace s @ a) b \<Longrightarrow> emits Q s t"
  by (auto simp: emits_def)

lemma emits_now: "trace t = trace s @ b \<Longrightarrow> Q (trace s) b \<Longrightarrow> emits Q s t"
  by (rule emitsI [where a = "[]" and c = "[]"]) simp_all

lemma emits_after: "emits Q u t \<Longrightarrow> trace u = trace s @ cs \<Longrightarrow> emits Q s t"
  unfolding emits_def by (metis append.assoc)

lemma emits_before: "emits Q s t \<Longrightarrow> trace u = trace t @ cs \<Longrightarrow> emits Q s u"
  unfolding emits_def by (metis append.assoc)

context call_op
begin

lemma emits_keep: "emits Q s t \<Longrightarrow> emits Q s (f t)"
  using trace_grows [of t] emits_before by blast

lemma emits_skip: "emits Q (f s) t \<Longrightarrow> emits Q s t"
  using trace_grows [of s] emits_after by blast

end

lemma emits_fold:
  assumes op: "\<And>y. call_op (f y)" and x: "x \<in> set xs"
    and e: "\<And>t. heap t = heap s \<Longrightarrow> iface_refs t = iface_refs s \<Longrightarrow> emits Q t (f x t)"
  shows "emits Q s (fold f xs s)"
proof -
  obtain ys zs where xs: "xs = ys @ x # zs"
    using x by (meson split_list)
  have pre: "call_op (fold f ys)"
    by (rule call_op_fold [OF op])
  let ?t = "fold f ys s"
  have "call_op (fold f zs)"
    by (rule call_op_fold [OF op])
  moreover have "emits Q s (f x ?t)"
    by (rule call_op.emits_skip [OF pre e]) (simp_all add: call_op.frame [OF pre])
  ultimately show ?thesis
    unfolding xs by (simp add: call_op.emits_keep)
qed

lemma emits_setup_proxy:
  "emits (\<lambda>h b. b = [NeighSet (neigh4 a i 0 NTF_PROXY [])]) s (snd (setupProxyNeigh4 E a i True s))"
  by (rule emits_now) (simp_all add: setupProxyNeigh4_def perform_def Let_def)

lemma emits_setup_route:
  "emits (\<lambda>h b. b = [RouteReplace (hostRoute4 a i m RTPROT_STATIC)]) s (snd (setupRoute4 E a i m True s))"
  by (rule emits_now) (simp_all add: setupRoute4_def perform_def)

definition asserts_proxy_arp :: "env \<Rightarrow> string \<Rightarrow> call list \<Rightarrow> call list \<Rightarrow> bool" where
  \<comment> \<open>the sysctl was read as set, or it was written\<close>
  "asserts_proxy_arp E n h b \<longleftrightarrow>
     b = [ReadFile (proxy_arp_path n), WriteFile (proxy_arp_path n) [49, 10]] \<or>
     b = [ReadFile (proxy_arp_path n)] \<and>
       (\<exists>c. ans_readFile E h (proxy_arp_path n) = Inr c \<and> TrimSpace c = [49])"

lemma emits_proxy_arp: "emits (asserts_proxy_arp E n) s (snd (setProxyARP E n True s))"
proof (cases "\<exists>c. ans_readFile E (trace s) (proxy_arp_path n) = Inr c \<and> TrimSpace c = [49]")
  case True
  then show ?thesis
    by (intro emits_now [where b = "[ReadFile (proxy_arp_path n)]"])
      (auto simp: setProxyARP_def asserts_proxy_arp_def Let_def)
next
  case False
  then show ?thesis
    by (intro emits_now [where b = "[ReadFile (proxy_arp_path n), WriteFile (proxy_arp_path n) [49, 10]]"])
      (auto simp: setProxyARP_def asserts_proxy_arp_def perform_def Let_def split: sum.split)
qed

lemma emits_mirror_master:
  assumes "relays_for s r c"
  shows "emits (\<lambda>h b. b = [NeighSet (neigh4 a (Ifindex (heap s c)) 0 NTF_PROXY [])]) s
    (arpMirrorMaster E a r True c s)"
  using assms setProxyARP.emits_skip [OF emits_setup_proxy]
  by (auto simp: arpMirrorMaster_def relays_for_def Let_def)

lemma emits_mirror_proxy:
  assumes "c \<in> set (iface_refs s)" and "relays_for s r c"
  shows "emits (\<lambda>h b. b = [NeighSet (neigh4 a (Ifindex (heap s c)) 0 NTF_PROXY [])]) s
    (arpMirrorAddr E a r True s)"
proof -
  have "emits (\<lambda>h b. b = [NeighSet (neigh4 a (Ifindex (heap s c)) 0 NTF_PROXY [])]) s
      (fold (arpMirrorMaster E a r True) (iface_refs s) s)"
    using emits_mirror_master [of _ r c a E] assms
    by (intro emits_fold [OF arpMirrorMaster.call_op_axioms assms(1)]) (metis relays_for_def)
  then show ?thesis
    by (auto simp: arpMirrorAddr_def Let_def intro: setupRoute4.emits_keep)
qed

interpretation mirror_masters: call_op "fold (arpMirrorMaster E a r add) cs" for E a r add cs
  by (rule call_op_fold [OF arpMirrorMaster.call_op_axioms])

interpretation reconcile_ifaces: call_op "fold (reconcileIface E) rs" for E rs
  by (rule call_op_fold [OF reconcileIface.call_op_axioms])

lemma emits_mirror_route:
  assumes "LearnRoutes (heap s r)" and "\<not> IsLinkLocalUnicast a"
  shows "emits (\<lambda>h b. b = [RouteReplace (hostRoute4 a (Ifindex (heap s r)) ourRouteMetric RTPROT_STATIC)]) s
    (arpMirrorAddr E a r True s)"
  using assms mirror_masters.emits_skip [OF emits_setup_route] by (simp add: arpMirrorAddr_def Let_def)

lemma emits_reconcile_iface:
  assumes "r \<in> set (iface_refs s)" and "ARP (heap s r) = ModeRelay"
  shows "emits (asserts_proxy_arp E (Ifname (heap s r))) s (reconcileKernelState E s)"
proof -
  have "emits (asserts_proxy_arp E (Ifname (heap s r))) s (fold (reconcileIface E) (iface_refs s) s)"
    using assms emits_proxy_arp
    by (intro emits_fold [OF reconcileIface.call_op_axioms assms(1)]) (simp add: reconcileIface_def)
  then show ?thesis
    using call_op.emits_keep [OF call_op_fold [OF reconcileKey.call_op_axioms]]
    by (simp add: reconcileKernelState_def Let_def)
qed

lemma emits_reconcile_key:
  assumes k: "k \<in> set (mirroredNeighs s)" and r: "ifaceByIndex s (mk_ifindex k) = Some r"
    and e: "\<And>t. heap t = heap s \<Longrightarrow> iface_refs t = iface_refs s \<Longrightarrow> emits Q t (arpMirrorAddr E (mk_addr k) r True t)"
  shows "emits Q s (reconcileKernelState E s)"
proof -
  let ?u = "fold (reconcileIface E) (iface_refs s) s"
  have "emits Q t (reconcileKey E k t)" if "heap t = heap ?u" "iface_refs t = iface_refs ?u" for t
  proof -
    have "ifaceByIndex t (mk_ifindex k) = Some r"
      using r that by (simp add: ifaceByIndex_def)
    with e [of t] that show ?thesis
      by (simp add: reconcileKey_def)
  qed
  then have "emits Q ?u (fold (reconcileKey E) (mirroredNeighs ?u) ?u)"
    using k by (intro emits_fold [OF reconcileKey.call_op_axioms]) simp_all
  then show ?thesis
    using reconcile_ifaces.emits_skip by (simp add: reconcileKernelState_def Let_def)
qed

section \<open>Neighbour events\<close>

definition client_event :: "state \<Rightarrow> NeighUpdate \<Rightarrow> iref \<Rightarrow> Addr \<Rightarrow> bool" where
  \<comment> \<open>a neighbour event about a host the relay may mirror on a relaying interface\<close>
  "client_event s u r a \<longleftrightarrow>
     nu_Type u = RTM_NEWNEIGH \<and> ifaceByIndex s (n_LinkIndex (nu_Neigh u)) = Some r \<and>
     ARP (heap s r) = ModeRelay \<and> AddrFromSlice (To4 (n_IP (nu_Neigh u))) = (a, True) \<and>
     \<not> IsLoopback a \<and> \<not> IsMulticast a \<and> \<not> IsLinkLocalUnicast a"

lemma handleNeighEvent_client:
  assumes "client_event s u r a"
  shows "handleNeighEvent E u s =
    (let mirrored = (key_of s a r \<in> set (mirroredNeighs s));
         st = n_State (nu_Neigh u)
     in if st AND resolvedMask \<noteq> 0 \<and> \<not> mirrored
        then arpMirrorAddr E a r True (add_mirrored (key_of s a r) s)
        else if st AND NUD_FAILED \<noteq> 0
        then deleteNeigh4 E a (Ifindex (heap s r)) (if mirrored then forget E r a s else s)
        else s)"
  using assms by (simp add: handleNeighEvent_def client_event_def forget_def Let_def)

lemma handleNeighEvent_other:
  "(\<And>r a. \<not> client_event s u r a) \<Longrightarrow> handleNeighEvent E u s = s"
  by (auto simp: handleNeighEvent_def client_event_def split: option.split prod.split)

lemma learn_effect:
  "set (mirroredNeighs (arpMirrorAddr E a r True (add_mirrored (key_of s a r) s))) =
     insert (key_of s a r) (set (mirroredNeighs s))"
  "proxies (trace (arpMirrorAddr E a r True (add_mirrored (key_of s a r) s))) =
     proxies (trace s) \<union> mirror_entries s r a (iface_refs s)"
  "routes (trace (arpMirrorAddr E a r True (add_mirrored (key_of s a r) s))) =
     (if \<not> LearnRoutes (heap s r) \<or> IsLinkLocalUnicast a then routes (trace s)
      else insert (hostNet a, Ifindex (heap s r)) (routes (trace s)))"
proof -
  let ?m = "add_mirrored (key_of s a r) s"
  have m: "heap ?m = heap s" "iface_refs ?m = iface_refs s" "trace ?m = trace s"
    "set (mirroredNeighs ?m) = insert (key_of s a r) (set (mirroredNeighs s))"
    by (simp_all add: add_mirrored_def iface_refs_def)
  then have "mirror_entries ?m r a = mirror_entries s r a"
    using mirror_entries_heap [of ?m s] by simp
  with m arpMirrorAddr_requests [of E a r True ?m]
  show "set (mirroredNeighs (arpMirrorAddr E a r True ?m)) =
      insert (key_of s a r) (set (mirroredNeighs s))"
    "proxies (trace (arpMirrorAddr E a r True ?m)) =
      proxies (trace s) \<union> mirror_entries s r a (iface_refs s)"
    "routes (trace (arpMirrorAddr E a r True ?m)) =
     (if \<not> LearnRoutes (heap s r) \<or> IsLinkLocalUnicast a then routes (trace s)
      else insert (hostNet a, Ifindex (heap s r)) (routes (trace s)))"
    by simp_all
qed

lemma neigh_transitions:
  fixes E :: env
  assumes ev: "client_event s u r a"
  defines "st \<equiv> n_State (nu_Neigh u)" and "k \<equiv> key_of s a r" and "t \<equiv> handleNeighEvent E u s"
  shows "st AND resolvedMask \<noteq> 0 \<Longrightarrow> k \<notin> set (mirroredNeighs s) \<Longrightarrow>
      set (mirroredNeighs t) = insert k (set (mirroredNeighs s)) \<and>
      proxies (trace t) = proxies (trace s) \<union> mirror_entries s r a (iface_refs s) \<and>
      routes (trace t) = (if LearnRoutes (heap s r)
        then insert (hostNet a, Ifindex (heap s r)) (routes (trace s)) else routes (trace s))"
    and "st AND NUD_FAILED \<noteq> 0 \<Longrightarrow> k \<in> set (mirroredNeighs s) \<Longrightarrow>
      set (mirroredNeighs t) = set (mirroredNeighs s) - {k} \<and>
      proxies (trace t) = proxies (trace s) - mirror_entries s r a (iface_refs s) \<and>
      routes (trace t) = (if LearnRoutes (heap s r)
        then routes (trace s) - {(hostNet a, Ifindex (heap s r))} else routes (trace s)) \<and>
      last (trace t) = NeighDel (neigh4 a (Ifindex (heap s r)) 0 0 [])"
    and "st AND NUD_FAILED \<noteq> 0 \<Longrightarrow> st AND resolvedMask = 0 \<Longrightarrow> k \<notin> set (mirroredNeighs s) \<Longrightarrow>
      t = issue (NeighDel (neigh4 a (Ifindex (heap s r)) 0 0 [])) s"
    and "st AND NUD_FAILED = 0 \<Longrightarrow> st AND resolvedMask = 0 \<or> k \<in> set (mirroredNeighs s) \<Longrightarrow> t = s"
proof -
  have ll: "\<not> IsLinkLocalUnicast a"
    using ev by (simp add: client_event_def)
  note eq = handleNeighEvent_client [OF ev, of E]
  show "st AND resolvedMask \<noteq> 0 \<Longrightarrow> k \<notin> set (mirroredNeighs s) \<Longrightarrow>
      set (mirroredNeighs t) = insert k (set (mirroredNeighs s)) \<and>
      proxies (trace t) = proxies (trace s) \<union> mirror_entries s r a (iface_refs s) \<and>
      routes (trace t) = (if LearnRoutes (heap s r)
        then insert (hostNet a, Ifindex (heap s r)) (routes (trace s)) else routes (trace s))"
    using ll by (simp add: t_def st_def k_def eq learn_effect del: arpMirrorAddr.frame)
  show "st AND NUD_FAILED \<noteq> 0 \<Longrightarrow> k \<in> set (mirroredNeighs s) \<Longrightarrow>
      set (mirroredNeighs t) = set (mirroredNeighs s) - {k} \<and>
      proxies (trace t) = proxies (trace s) - mirror_entries s r a (iface_refs s) \<and>
      routes (trace t) = (if LearnRoutes (heap s r)
        then routes (trace s) - {(hostNet a, Ifindex (heap s r))} else routes (trace s)) \<and>
      last (trace t) = NeighDel (neigh4 a (Ifindex (heap s r)) 0 0 [])"
    using ll by (simp add: t_def st_def k_def eq forget_effect deleteNeigh4_def neigh4_def)
  show "st AND NUD_FAILED \<noteq> 0 \<Longrightarrow> st AND resolvedMask = 0 \<Longrightarrow> k \<notin> set (mirroredNeighs s) \<Longrightarrow>
      t = issue (NeighDel (neigh4 a (Ifindex (heap s r)) 0 0 [])) s"
    by (simp add: t_def st_def k_def eq deleteNeigh4_def)
  show "st AND NUD_FAILED = 0 \<Longrightarrow> st AND resolvedMask = 0 \<or> k \<in> set (mirroredNeighs s) \<Longrightarrow> t = s"
    by (auto simp: t_def st_def k_def eq Let_def)
qed

section \<open>Link events\<close>

lemma disableServices_dhcp [simp]: "dhcp (heap (disableServices E r s) r) = []"
  by (simp add: disableServices_def dhcpv4Setup_off)

lemma reloadServices_dhcp:
  "dhcp (heap (reloadServices E r s) r) \<noteq> [] \<Longrightarrow> Running (heap s r) \<and> DHCPv4 (heap s r) = ModeRelay"
  by (auto simp: reloadServices_def Let_def split: if_splits dest: dhcpv4Setup_dhcp_only_if)

lemma reloadServices_socks:
  "socks_ok (nextSock s) (nextSock (reloadServices E r s)) r (heap (reloadServices E r s) r)"
  using dhcpv4Setup_socks [of "snd (arpSetup E r b s)" E r b' for b b']
  by (simp add: reloadServices_def Let_def)

text \<open>When the device of an interface disappears, the interface keeps its place in the registry but
  loses its sockets, index, addresses and running state, all its clients leave the table, and no other
  interface and no other client is touched.\<close>
lemma handleLinkEvent_gone:
  assumes "ifaceByIfname s (lu_Name u) = Some r" and "lu_Type u = RTM_DELLINK"
    and "Ifindex (heap s r) = lu_Index u"
  shows "\<exists>t. handleLinkEvent E u s = t \<and> dhcp (heap t r) = [] \<and> Ifindex (heap t r) = 0 \<and>
    \<not> Running (heap t r) \<and> Addr4s (heap t r) = [] \<and> interfaces t = interfaces s \<and>
    (\<forall>r'. r' \<noteq> r \<longrightarrow> heap t r' = heap s r') \<and>
    set (mirroredNeighs t) = {k \<in> set (mirroredNeighs s). mk_ifindex k \<noteq> lu_Index u}"
  using assms
  by (simp add: handleLinkEvent_def clearMirroredState_keys disableServices.sock_heap_other)

lemma handleLinkEvent_gone_witness:
  "\<exists>t. handleLinkEvent quiet_env \<lparr>lu_Type = RTM_DELLINK, lu_Index = 2, lu_Flags = 0, lu_Name = ''eth1''\<rparr>
      sample_state = t \<and> dhcp (heap t 0) = [] \<and> dhcp (heap t 1) = [\<lparr>ds_id = 1, ds_fd = 6, ds_iface = 1\<rparr>]"
  using handleLinkEvent_gone [of sample_state
      "\<lparr>lu_Type = RTM_DELLINK, lu_Index = 2, lu_Flags = 0, lu_Name = ''eth1''\<rparr>" 0 quiet_env]
  by auto

text \<open>When a device comes back under a new index, the interface adopts the index and the running
  state, the clients known under the old index leave the table, its sockets are all new ones that
  belong to it (at most two on a master, one on a slave), and it has sockets only if it is running
  and relaying.\<close>
lemma handleLinkEvent_renumbered:
  assumes "ifaceByIfname s (lu_Name u) = Some r" and "lu_Type u \<noteq> RTM_DELLINK"
    and "Ifindex (heap s r) \<noteq> lu_Index u"
  shows "\<exists>t. handleLinkEvent E u s = t \<and> Ifindex (heap t r) = lu_Index u \<and>
    Running (heap t r) = (lu_Flags u AND IFF_RUNNING \<noteq> 0) \<and>
    socks_ok (nextSock s) (nextSock t) r (heap t r) \<and>
    (dhcp (heap t r) \<noteq> [] \<longrightarrow> Running (heap t r) \<and> DHCPv4 (heap t r) = ModeRelay) \<and>
    set (mirroredNeighs t) = {k \<in> set (mirroredNeighs s). mk_ifindex k \<noteq> Ifindex (heap s r)}"
proof -
  let ?s1 = "clearMirroredState E r (disableServices E r s)"
  let ?s2 = "set_iface r (\<lambda>i. i\<lparr>Ifindex := lu_Index u, Running := lu_Flags u AND IFF_RUNNING \<noteq> 0\<rparr>) ?s1"
  let ?s3 = "refreshInterfaceAddresses E r ?s2"
  have t: "handleLinkEvent E u s = reloadServices E r ?s3"
    using assms by (simp add: handleLinkEvent_def Let_def)
  have "nextSock s \<le> nextSock ?s3"
    using disableServices.nextSock_mono by simp
  moreover have "socks_ok (nextSock ?s3) (nextSock (reloadServices E r ?s3)) r
      (heap (reloadServices E r ?s3) r)"
    by (rule reloadServices_socks)
  ultimately have "socks_ok (nextSock s) (nextSock (reloadServices E r ?s3)) r
      (heap (reloadServices E r ?s3) r)"
    by (auto simp: socks_ok_def list_all_iff)
  with reloadServices_dhcp [of E r ?s3] show ?thesis
    unfolding t by (auto simp: clearMirroredState_keys)
qed

lemma handleLinkEvent_renumbered_witness:
  "\<exists>t. handleLinkEvent quiet_env \<lparr>lu_Type = 16, lu_Index = 9, lu_Flags = IFF_RUNNING, lu_Name = ''eth1''\<rparr>
      sample_state = t \<and> Ifindex (heap t 0) = 9 \<and> socks_ok 2 (nextSock t) 0 (heap t 0)"
  using handleLinkEvent_renumbered [of sample_state
      "\<lparr>lu_Type = 16, lu_Index = 9, lu_Flags = IFF_RUNNING, lu_Name = ''eth1''\<rparr>" 0 quiet_env]
  by auto

section \<open>Properties of the mirror\<close>

text \<open>C20: Mirroring refines its contract: adding an address adds to the requested proxy entries exactly the
  pairs of the address with every other relaying master, and to the host routes the address on its
  own interface when the interface learns routes and the address is not link-local; removing it
  removes exactly the same. Nothing else of the state changes.\<close>
theorem arpMirrorAddr_refines:
  "(\<exists>cs. arpMirrorAddr E a r add s = s\<lparr>trace := trace s @ cs\<rparr>) \<and>
   proxies (trace (arpMirrorAddr E a r add s)) =
     (if add then proxies (trace s) \<union> mirror_entries s r a (iface_refs s)
      else proxies (trace s) - mirror_entries s r a (iface_refs s)) \<and>
   routes (trace (arpMirrorAddr E a r add s)) =
     (if \<not> LearnRoutes (heap s r) \<or> IsLinkLocalUnicast a then routes (trace s)
      else if add then insert (hostNet a, Ifindex (heap s r)) (routes (trace s))
      else routes (trace s) - {(hostNet a, Ifindex (heap s r))})"
  using arpMirrorAddr_requests [of E a r add s] arpMirrorAddr.only_calls [of E a r add s] by blast

lemma arpMirrorAddr_refines_witness:
  "proxies (trace (arpMirrorAddr quiet_env sample_client 0 True sample_state)) =
     {(AsSlice sample_client, 3)}"
  using arpMirrorAddr_refines [of quiet_env sample_client 0 True sample_state]
  by (simp add: relays_for_def)


definition sample_neigh :: "int \<Rightarrow> NeighUpdate" where
  "sample_neigh st = \<lparr>nu_Type = RTM_NEWNEIGH, nu_Neigh = \<lparr>n_LinkIndex = 2, n_Family = 2, n_State = st,
     n_Flags = 0, n_IP = [192, 168, 1, 50], n_HardwareAddr = []\<rparr>\<rparr>"


text \<open>Reconciliation re-asserts everything by itself, whatever an external program removed: for every
  relaying interface \<open>proxy_arp\<close> is found set or written, and for every client of the table on a known
  interface the proxy entry on each other relaying master and, if the interface learns routes, the
  host route are requested again. Nothing else changes.\<close>
lemma reconcile_reasserts:
  "\<exists>cs. reconcileKernelState E s = s\<lparr>trace := trace s @ cs\<rparr> \<and>
    (\<forall>r \<in> set (iface_refs s). ARP (heap s r) = ModeRelay \<longrightarrow>
       emits (asserts_proxy_arp E (Ifname (heap s r))) s (s\<lparr>trace := trace s @ cs\<rparr>)) \<and>
    (\<forall>k \<in> set (mirroredNeighs s). \<forall>r. ifaceByIndex s (mk_ifindex k) = Some r \<longrightarrow>
       (\<forall>c \<in> set (iface_refs s). relays_for s r c \<longrightarrow>
          NeighSet (neigh4 (mk_addr k) (Ifindex (heap s c)) 0 NTF_PROXY []) \<in> set cs) \<and>
       (LearnRoutes (heap s r) \<and> \<not> IsLinkLocalUnicast (mk_addr k) \<longrightarrow>
          RouteReplace (hostRoute4 (mk_addr k) (Ifindex (heap s r)) ourRouteMetric RTPROT_STATIC) \<in> set cs))"
proof -
  obtain cs where cs: "reconcileKernelState E s = s\<lparr>trace := trace s @ cs\<rparr>"
    using reconcileKernelState.only_callsE by blast
  have one: "c \<in> set cs" if "emits (\<lambda>h b. b = [c]) s (reconcileKernelState E s)" for c
    using that by (auto simp: emits_def cs)
  have "NeighSet (neigh4 (mk_addr k) (Ifindex (heap s c)) 0 NTF_PROXY []) \<in> set cs"
    if "k \<in> set (mirroredNeighs s)" "ifaceByIndex s (mk_ifindex k) = Some r" "c \<in> set (iface_refs s)"
      "relays_for s r c" for k r c
  proof (rule one, rule emits_reconcile_key [OF that(1,2)])
    fix t :: state
    assume t: "heap t = heap s" "iface_refs t = iface_refs s"
    then have "relays_for t r c"
      using that(4) by (simp add: relays_for_def)
    then show "emits (\<lambda>h b. b = [NeighSet (neigh4 (mk_addr k) (Ifindex (heap s c)) 0 NTF_PROXY [])]) t
        (arpMirrorAddr E (mk_addr k) r True t)"
      using emits_mirror_proxy [of c t r] that(3) t by simp
  qed
  moreover have "RouteReplace (hostRoute4 (mk_addr k) (Ifindex (heap s r)) ourRouteMetric RTPROT_STATIC) \<in> set cs"
    if "k \<in> set (mirroredNeighs s)" "ifaceByIndex s (mk_ifindex k) = Some r" "LearnRoutes (heap s r)"
      "\<not> IsLinkLocalUnicast (mk_addr k)" for k r
  proof (rule one, rule emits_reconcile_key [OF that(1,2)])
    fix t :: state
    assume t: "heap t = heap s" "iface_refs t = iface_refs s"
    then show "emits (\<lambda>h b. b = [RouteReplace (hostRoute4 (mk_addr k) (Ifindex (heap s r)) ourRouteMetric RTPROT_STATIC)]) t
        (arpMirrorAddr E (mk_addr k) r True t)"
      using emits_mirror_route [of t r "mk_addr k"] that(3,4) by simp
  qed
  ultimately show ?thesis
    using emits_reconcile_iface [of _ s E] by (intro exI [of _ cs]) (auto simp: cs)
qed

text \<open>C36: Dropping an interface from the configuration leaves its clients behind: its sockets are closed
  and it leaves the registry, but the table keeps every client of it and every proxy entry and host
  route requested so far stays requested.\<close>
theorem closed_interface_keeps_mirror:
  "dhcp (heap (closeInterface E r s) r) = [] \<and>
   mirroredNeighs (closeInterface E r s) = mirroredNeighs s \<and>
   proxies (trace (closeInterface E r s)) = proxies (trace s) \<and>
   routes (trace (closeInterface E r s)) = routes (trace s)"
proof -
  have keep: "fold proxy_request cs P = P \<and> fold route_request cs R = R"
    if "set cs \<subseteq> range CloseDone \<union> range Close" for cs P R
    using that by (induction cs) auto
  have calls: "set (concat (map (\<lambda>ds. CloseDone (ds_id ds) # (if 0 \<le> ds_fd ds then [Close (ds_fd ds)] else [])) dss))
      \<subseteq> range CloseDone \<union> range Close" for dss :: "dhcpSock list"
    by auto
  show ?thesis
    by (simp add: closeInterface_def Let_def dhcpv4Setup_off teardown_trace keep [OF calls] arpSetup_def)
qed

text \<open>On an interface that does not learn routes, the sweep drops the client of an orphaned host route
  and withdraws its proxy entries, but never asks for the route itself to be deleted, so the route
  comes up as an orphan again in every later sweep.\<close>
lemma orphan_route_kept_without_learning:
  assumes "\<not> LearnRoutes (heap s r)" and "owned_addr (Ifindex (heap s r)) rt = Some a" and "a \<notin> set live"
  shows "routes (trace (sweepRoute E r live rt s)) = routes (trace s) \<and>
    key_of s a r \<notin> set (mirroredNeighs (sweepRoute E r live rt s)) \<and>
    proxies (trace (sweepRoute E r live rt s)) = proxies (trace s) - mirror_entries s r a (iface_refs s)"
  using assms by (simp add: sweepRoute_eq forget_effect)

lemma orphan_route_kept_without_learning_witness:
  "routes (trace (sweepRoute quiet_env 0 [] (hostRoute4 sample_client 2 ourRouteMetric 4)
      (set_iface 0 (\<lambda>i. i\<lparr>LearnRoutes := False\<rparr>) sample_state))) = {}"
  using orphan_route_kept_without_learning [of "set_iface 0 (\<lambda>i. i\<lparr>LearnRoutes := False\<rparr>) sample_state" 0
      "hostRoute4 sample_client 2 ourRouteMetric 4" sample_client "[]" quiet_env]
  by (simp add: owned_addr_def ownedHostRoute_def hostRoute4_def hostNet_def MaskSize_CIDRMask32
      sample_client_def To4_def)

end
