(* ===== verification/Invariants.thy ===== *)
theory Invariants
  imports Relay_Config Netlink_Effects
begin

text \<open>
  The invariant of the daemon's state and its preservation by every event handler and by
  \<open>Reload\<close>.

  \<^item> \<open>registry_ok\<close>: config names and references are unique, every registered reference is
    allocated and carries the name it is registered under.
  \<^item> \<open>socks_wf\<close>: every socket points back at the interface that holds it, has an identity of its
    own that was handed out already, and interfaces that are not registered hold none.
  \<^item> \<open>mirror_ok\<close>: the table of mirrored clients has no duplicates and holds IPv4 client addresses.
  \<^item> \<open>services_ok\<close>: an interface with sockets is running and relaying, with at most two sockets
    on a master and one on a slave. \<open>Reload\<close> breaks it on the way and restores it at the end.
\<close>

definition registry_ok :: "state \<Rightarrow> bool" where
  "registry_ok s \<longleftrightarrow> distinct (map fst (interfaces s)) \<and> distinct (iface_refs s) \<and>
     (\<forall>(n, r) \<in> set (interfaces s). r < nextRef s \<and> Name (heap s r) = n)"

definition socks_wf :: "state \<Rightarrow> bool" where
  "socks_wf s \<longleftrightarrow>
     (\<forall>r ds. ds \<in> set (dhcp (heap s r)) \<longrightarrow> ds_iface ds = r \<and> ds_id ds < nextSock s) \<and>
     (\<forall>r. distinct (map ds_id (dhcp (heap s r)))) \<and>
     (\<forall>r r' ds ds'. ds \<in> set (dhcp (heap s r)) \<longrightarrow> ds' \<in> set (dhcp (heap s r')) \<longrightarrow>
        ds_id ds = ds_id ds' \<longrightarrow> r = r') \<and>
     (\<forall>r. r \<notin> set (iface_refs s) \<longrightarrow> dhcp (heap s r) = [])"

definition mirror_ok :: "state \<Rightarrow> bool" where
  "mirror_ok s \<longleftrightarrow> distinct (mirroredNeighs s) \<and> list_all client_key (mirroredNeighs s)"

definition state_ok :: "state \<Rightarrow> bool" where
  "state_ok s \<longleftrightarrow> registry_ok s \<and> socks_wf s \<and> mirror_ok s"

definition service_ok :: "Interface \<Rightarrow> bool" where
  "service_ok i \<longleftrightarrow> (dhcp i \<noteq> [] \<longrightarrow> Running i \<and> DHCPv4 i = ModeRelay) \<and>
     length (dhcp i) \<le> (if Master i then 2 else 1)"

definition services_ok :: "state \<Rightarrow> bool" where
  "services_ok s \<longleftrightarrow> (\<forall>r. service_ok (heap s r))"

lemma service_ok_idle: "dhcp i = [] \<Longrightarrow> service_ok i"
  by (simp add: service_ok_def)

lemma services_ok_update:
  "services_ok s \<Longrightarrow> (\<And>r'. r' \<noteq> r \<Longrightarrow> heap t r' = heap s r') \<Longrightarrow> service_ok (heap t r) \<Longrightarrow> services_ok t"
  unfolding services_ok_def by metis

section \<open>Preservation by the kinds of operations\<close>

lemma state_ok_mirror_step:
  assumes "mirror_step client_key s t" and "state_ok s"
  shows "state_ok t"
proof -
  have "registry_ok t = registry_ok s" "socks_wf t = socks_wf s"
    using mirror_step_frame [OF assms(1)] by (simp_all add: registry_ok_def socks_wf_def)
  moreover have "mirror_ok t"
    using assms mirror_step_keys [OF assms(1)]
    by (fastforce simp: state_ok_def mirror_ok_def list_all_iff)
  ultimately show ?thesis
    using assms(2) by (simp add: state_ok_def)
qed

lemma services_ok_mirror_step:
  "mirror_step P s t \<Longrightarrow> services_ok s \<Longrightarrow> services_ok t"
  by (simp add: services_ok_def mirror_step_frame)

lemma socks_wf_sock_step:
  assumes wf: "socks_wf s" and r: "r \<in> set (iface_refs s)"
    and t: "t = (set_iface r (\<lambda>i. i\<lparr>dhcp := dss\<rparr>) s)\<lparr>trace := tr, nextSock := n\<rparr>"
    and n: "nextSock s \<le> n" and fresh: "socks_ok (nextSock s) n r (heap t r)"
  shows "socks_wf t"
proof -
  have refs: "iface_refs t = iface_refs s"
    by (simp add: t iface_refs_def)
  have new: "ds_iface ds = r \<and> nextSock s \<le> ds_id ds \<and> ds_id ds < n" if "ds \<in> set dss" for ds
    using fresh that by (auto simp: socks_ok_def list_all_iff t)
  have old: "ds_iface ds = r' \<and> ds_id ds < nextSock s" if "ds \<in> set (dhcp (heap s r'))" for ds r'
    using wf that by (auto simp: socks_wf_def)
  have uniq: "r1 = r2" if "ds1 \<in> set (dhcp (heap s r1))" "ds2 \<in> set (dhcp (heap s r2))"
    "ds_id ds1 = ds_id ds2" for ds1 ds2 r1 r2
    using wf that by (auto simp: socks_wf_def)
  have lo: "nextSock s \<le> ds_id ds \<longleftrightarrow> r' = r" if "ds \<in> set (dhcp (heap t r'))" for ds r'
    using that new old [of ds r'] by (auto simp: t split: if_splits)
  have "r1 = r2" if "ds1 \<in> set (dhcp (heap t r1))" "ds2 \<in> set (dhcp (heap t r2))"
    "ds_id ds1 = ds_id ds2" for ds1 ds2 r1 r2
    using lo that uniq by (cases "r1 = r \<or> r2 = r") (metis, simp add: t)
  moreover have "dhcp (heap t r') = []" if "r' \<notin> set (iface_refs t)" for r'
    using wf that r refs by (auto simp: t socks_wf_def)
  moreover have "ds_iface ds = r' \<and> ds_id ds < nextSock t" if "ds \<in> set (dhcp (heap t r'))" for ds r'
    using that new old [of ds r'] n by (auto simp: t split: if_splits)
  moreover have "distinct (map ds_id (dhcp (heap t r')))" for r'
    using fresh wf by (auto simp: socks_ok_def t socks_wf_def)
  ultimately show ?thesis
    unfolding socks_wf_def by (intro conjI allI impI) (assumption | meson)+
qed

lemma state_ok_sock_step:
  assumes step: "sock_step r s t" and ok: "state_ok s" and r: "r \<in> set (iface_refs s)"
    and fresh: "socks_ok (nextSock s) (nextSock t) r (heap t r)"
  shows "state_ok t"
proof -
  obtain cs n dss where n: "nextSock s \<le> n"
    and t: "t = (set_iface r (\<lambda>i. i\<lparr>dhcp := dss\<rparr>) s)\<lparr>trace := trace s @ cs, nextSock := n\<rparr>"
    using step by (auto simp: sock_step_def)
  have "iface_refs t = iface_refs s"
    by (simp add: t iface_refs_def)
  then have "registry_ok t"
    using ok by (auto simp: state_ok_def registry_ok_def t split: if_splits)
  moreover have "mirror_ok t"
    using ok by (simp add: state_ok_def mirror_ok_def t)
  moreover have "socks_wf t"
    by (rule socks_wf_sock_step [OF _ r t n]) (use ok fresh in \<open>simp_all add: state_ok_def t\<close>)
  ultimately show ?thesis
    by (simp add: state_ok_def)
qed

lemma state_ok_set_iface:
  assumes "state_ok s" and "\<And>i. Name (f i) = Name i \<and> dhcp (f i) = dhcp i"
  shows "state_ok (set_iface r f s)"
proof -
  have same: "Name (heap (set_iface r f s) r') = Name (heap s r')"
    "dhcp (heap (set_iface r f s) r') = dhcp (heap s r')" for r'
    using assms(2) by simp_all
  have "registry_ok (set_iface r f s) = registry_ok s" "socks_wf (set_iface r f s) = socks_wf s"
    "mirror_ok (set_iface r f s) = mirror_ok s"
    unfolding registry_ok_def socks_wf_def mirror_ok_def same by simp_all
  with assms(1) show ?thesis
    by (simp add: state_ok_def)
qed

lemma state_ok_fields [simp]:
  "state_ok (s\<lparr>reconcileScheduled := b\<rparr>) = state_ok s" "state_ok (s\<lparr>timers := ts\<rparr>) = state_ok s"
  "state_ok (s\<lparr>mirrorSweepOnce := c\<rparr>) = state_ok s" "state_ok (s\<lparr>mirrorSweepDone := c\<rparr>) = state_ok s"
  "state_ok (s\<lparr>staleClientSweepInterval := d\<rparr>) = state_ok s" "state_ok (s\<lparr>logLevel := l\<rparr>) = state_ok s"
  by (simp_all add: state_ok_def registry_ok_def socks_wf_def mirror_ok_def iface_refs_def)

lemma state_ok_issue: "state_ok s \<Longrightarrow> state_ok (issue c s)"
  by (rule state_ok_mirror_step [OF issue.as_mirror_step])

section \<open>The service operations\<close>

lemma disableServices_ok:
  assumes "state_ok s" and "r \<in> set (iface_refs s)"
  shows "state_ok (disableServices E r s)"
  by (rule state_ok_sock_step [OF disableServices.only_socks assms])
    (simp add: socks_ok_def)

lemma reloadServices_ok:
  assumes "state_ok s" and "r \<in> set (iface_refs s)"
  shows "state_ok (reloadServices E r s)"
  by (rule state_ok_sock_step [OF reloadServices.only_socks assms reloadServices_socks])

lemma reloadServices_service_ok: "service_ok (heap (reloadServices E r s) r)"
  using reloadServices_socks [of s E r] reloadServices_dhcp [of E r s]
  by (auto simp: service_ok_def socks_ok_def)

lemma refreshInterfaceAddresses_ok:
  assumes "state_ok s"
  shows "state_ok (refreshInterfaceAddresses E r s)"
  unfolding refreshInterfaceAddresses_def case_prod_beta
  by (rule state_ok_set_iface [OF state_ok_mirror_step [OF fetchAddr4.as_mirror_step assms]]) simp

lemma clearMirroredState_ok: "state_ok s \<Longrightarrow> state_ok (clearMirroredState E r s)"
  by (rule state_ok_mirror_step [OF clearMirroredState.only_mirror])

lemma closeInterface_frame:
  "interfaces (closeInterface E r s) = filter (\<lambda>(n, r'). n \<noteq> Name (heap s r)) (interfaces s)"
  "nextRef (closeInterface E r s) = nextRef s"
  "mirroredNeighs (closeInterface E r s) = mirroredNeighs s"
  "reconcileScheduled (closeInterface E r s) = reconcileScheduled s"
  "timers (closeInterface E r s) = timers s"
  "mirrorSweepOnce (closeInterface E r s) = mirrorSweepOnce s"
  "mirrorSweepDone (closeInterface E r s) = mirrorSweepDone s"
  "r' \<noteq> r \<Longrightarrow> heap (closeInterface E r s) r' = heap s r'"
  "dhcp (heap (closeInterface E r s) r) = []"
  "Name (heap (closeInterface E r s) r'') = Name (heap s r'')"
  "nextSock (closeInterface E r s) = nextSock s"
  by (simp_all add: closeInterface_def Let_def dhcpv4Setup_off teardown.sock_heap_other)

lemma registered_name:
  "registry_ok s \<Longrightarrow> r \<in> set (iface_refs s) \<Longrightarrow> (Name (heap s r), r) \<in> set (interfaces s)"
  by (auto simp: registry_ok_def iface_refs_def)

lemma closeInterface_refs:
  assumes "registry_ok s" and "r \<in> set (iface_refs s)"
  shows "iface_refs (closeInterface E r s) = filter (\<lambda>r'. r' \<noteq> r) (iface_refs s)"
proof -
  have names: "n \<noteq> Name (heap s r) \<longleftrightarrow> r' \<noteq> r" if "(n, r') \<in> set (interfaces s)" for n r'
    using assms that registered_name [OF assms]
    by (auto simp: registry_ok_def dest: eq_key_imp_eq_value)
  have "map snd (filter (\<lambda>(n, r'). n \<noteq> Name (heap s r)) xs) = filter (\<lambda>r'. r' \<noteq> r) (map snd xs)"
    if "set xs \<subseteq> set (interfaces s)" for xs
    using that
  proof (induction xs)
    case (Cons x xs)
    then show ?case using names [of "fst x" "snd x"] by (cases x) auto
  qed simp
  then show ?thesis
    by (simp add: iface_refs_def closeInterface_frame)
qed

lemma closeInterface_ok:
  assumes "state_ok s" and "r \<in> set (iface_refs s)"
  shows "state_ok (closeInterface E r s)"
proof -
  let ?t = "closeInterface E r s"
  have reg: "registry_ok s" using assms(1) by (simp add: state_ok_def)
  note refs = closeInterface_refs [OF reg assms(2), of E]
  have h: "dhcp (heap ?t r') = (if r' = r then [] else dhcp (heap s r'))" for r'
    by (simp add: closeInterface_frame)
  have "registry_ok ?t"
    using reg refs by (auto simp: registry_ok_def closeInterface_frame distinct_map_filter)
  moreover have "socks_wf ?t"
    using assms(1) refs unfolding socks_wf_def state_ok_def h
    by (auto simp: closeInterface_frame split: if_splits)
  moreover have "mirror_ok ?t"
    using assms(1) by (simp add: state_ok_def mirror_ok_def closeInterface_frame)
  ultimately show ?thesis
    by (simp add: state_ok_def)
qed

section \<open>The event handlers\<close>

lemma refresh_service_ok [simp]:
  "service_ok (heap (refreshInterfaceAddresses E r s) r') = service_ok (heap s r')"
  by (simp add: service_ok_def)

lemma handleAddrEvent_ok:
  "state_ok s \<Longrightarrow> state_ok (handleAddrEvent E u s)"
  "services_ok s \<Longrightarrow> services_ok (handleAddrEvent E u s)"
  by (auto simp: handleAddrEvent_def refreshInterfaceAddresses_ok services_ok_def
      split: option.split)

lemma scheduleReconcile_ok:
  "state_ok s \<Longrightarrow> state_ok (scheduleReconcile s)"
  "heap (scheduleReconcile s) = heap s"
  by (simp_all add: scheduleReconcile_def)

lemma handleRouteEvent_ok:
  "state_ok s \<Longrightarrow> state_ok (handleRouteEvent u s)"
  "services_ok s \<Longrightarrow> services_ok (handleRouteEvent u s)"
  by (auto simp: handleRouteEvent_def scheduleReconcile_ok services_ok_def split: option.split)

lemma runReconcile_ok:
  "state_ok s \<Longrightarrow> state_ok (runReconcile E s)"
  "services_ok s \<Longrightarrow> services_ok (runReconcile E s)"
  by (simp_all add: runReconcile_def services_ok_def
      state_ok_mirror_step [OF reconcileKernelState.as_mirror_step])

lemma scheduleMirrorSweep_ok:
  "state_ok s \<Longrightarrow> state_ok (scheduleMirrorSweep s)"
  "heap (scheduleMirrorSweep s) = heap s"
  "iface_refs (scheduleMirrorSweep s) = iface_refs s"
  "interfaces (scheduleMirrorSweep s) = interfaces s"
  by (simp_all add: scheduleMirrorSweep_def startMirrorSweep_def iface_refs_def Let_def)

lemma handleLinkEvent_ok:
  assumes "state_ok s"
  shows "state_ok (handleLinkEvent E u s)"
proof (cases "ifaceByIfname s (lu_Name u)")
  case None
  with assms show ?thesis by (simp add: handleLinkEvent_def)
next
  case (Some r)
  then have r: "r \<in> set (iface_refs s)"
    by (simp add: ifaceByIfname_SomeD)
  have cleared: "state_ok (clearMirroredState E r (disableServices E r s))"
    by (intro clearMirroredState_ok disableServices_ok assms r)
  with Some r show ?thesis
    using assms
    by (auto simp: handleLinkEvent_def Let_def
        intro!: state_ok_set_iface reloadServices_ok refreshInterfaceAddresses_ok)
qed

lemma handleLinkEvent_heap_other:
  "ifaceByIfname s (lu_Name u) = Some r \<Longrightarrow> r' \<noteq> r \<Longrightarrow> heap (handleLinkEvent E u s) r' = heap s r'"
  by (simp add: handleLinkEvent_def Let_def reloadServices.sock_heap_other disableServices.sock_heap_other)

lemma handleLinkEvent_services_ok:
  assumes "services_ok s"
  shows "services_ok (handleLinkEvent E u s)"
proof (cases "ifaceByIfname s (lu_Name u)")
  case None
  with assms show ?thesis by (simp add: handleLinkEvent_def)
next
  case (Some r)
  have "service_ok (heap (handleLinkEvent E u s) r)"
    using Some assms
    by (auto simp: handleLinkEvent_def Let_def reloadServices_service_ok service_ok_idle services_ok_def)
       (auto simp: service_ok_def)
  with services_ok_update [OF assms, of r] handleLinkEvent_heap_other [OF Some] show ?thesis
    by blast
qed

section \<open>Reload\<close>

lemma findOrCreateInterface_ok:
  assumes "state_ok s" and "findOrCreateInterface name s = (r, t)"
  shows "state_ok t" and "r \<in> set (iface_refs t)" and "Name (heap t r) = name"
proof -
  have reg: "registry_ok s" and wf: "socks_wf s" and mir: "mirror_ok s"
    using assms(1) by (simp_all add: state_ok_def)
  have "state_ok t \<and> r \<in> set (iface_refs t) \<and> Name (heap t r) = name"
  proof (cases "map_of (interfaces s) name")
    case (Some r')
    then have "(name, r') \<in> set (interfaces s)"
      by (rule map_of_SomeD)
    moreover have "t = s" "r' = r"
      using assms(2) Some by (simp_all add: findOrCreateInterface_def)
    ultimately show ?thesis
      using assms(1) reg by (force simp: registry_ok_def iface_refs_def)
  next
    case None
    let ?i = "(new_Interface name)\<lparr>DHCPv4 := ModeRelay, ARP := ModeRelay, LearnRoutes := True\<rparr>"
    have r: "r = nextRef s"
      and t: "t = s\<lparr>heap := (heap s)(r := ?i), nextRef := Suc r, interfaces := interfaces s @ [(name, r)]\<rparr>"
      using assms(2) None
      by (auto simp: findOrCreateInterface_def setInterfaceDefaults_def set_iface_def Let_def)
    have fresh: "r' < r" if "r' \<in> set (iface_refs s)" for r'
      using that reg by (auto simp: registry_ok_def iface_refs_def r)
    have refs: "iface_refs t = iface_refs s @ [r]"
      by (simp add: t iface_refs_def)
    have "r \<notin> set (iface_refs s)"
      using fresh [of r] by blast
    then have idle: "dhcp (heap s r) = []"
      using wf by (simp add: socks_wf_def)
    have dh: "dhcp (heap t r') = dhcp (heap s r')" for r'
      using idle by (simp add: t new_Interface_def)
    have "name \<notin> fst ` set (interfaces s)"
      using None by (simp add: map_of_eq_None_iff)
    then have "registry_ok t"
      using reg fresh refs
      by (fastforce simp: registry_ok_def t new_Interface_def iface_refs_def)
    moreover have "socks_wf t"
      using wf unfolding socks_wf_def dh refs by (simp add: t)
    moreover have "mirror_ok t"
      using mir by (simp add: mirror_ok_def t)
    moreover have "r \<in> set (iface_refs t)" and "Name (heap t r) = name"
      unfolding refs by (simp_all add: t new_Interface_def)
    ultimately show ?thesis
      by (simp add: state_ok_def)
  qed
  then show "state_ok t" and "r \<in> set (iface_refs t)" and "Name (heap t r) = name"
    by simp_all
qed

lemma adoptLink_ok:
  assumes "state_ok s" and "r \<in> set (iface_refs s)"
  shows "state_ok (adoptLink E n link r s)"
  using assms
  by (auto simp: adoptLink_def Let_def
      intro!: state_ok_set_iface refreshInterfaceAddresses_ok clearMirroredState_ok disableServices_ok)

lemma adoptLink_refs [simp]: "iface_refs (adoptLink E n link r s) = iface_refs s"
  by (simp add: adoptLink_def Let_def)

lemma parseInterfaceJSON_ok:
  assumes "state_ok s"
  shows "state_ok (snd (parseInterfaceJSON E name obj s))"
proof -
  obtain r t where f: "findOrCreateInterface name s = (r, t)" by fastforce
  note ok = findOrCreateInterface_ok [OF assms f]
  have "state_ok (issue c t)" "r \<in> set (iface_refs (issue c t))" for c
    using ok by (simp_all add: state_ok_issue)
  then show ?thesis
    using ok
    by (auto simp: parseInterfaceJSON_def f Let_def configureIface_def split: option.split sum.split
        intro!: state_ok_set_iface adoptLink_ok)
qed

lemma applyGlobal_ok: "state_ok s \<Longrightarrow> state_ok (applyGlobal cfg root s)"
  by (auto simp: applyGlobal_def Let_def SetLogLevel_def split: option.split)

lemma loadConfigJSON_ok:
  assumes "state_ok s"
  shows "state_ok (loadConfigJSON E unm cfg s)"
proof -
  have "state_ok (fold (\<lambda>(name, obj) s. snd (parseInterfaceJSON E name obj s)) objs t)"
    if "state_ok t" for objs t
    using that by (intro fold_invariant [where I = state_ok]) (auto simp: parseInterfaceJSON_ok)
  then show ?thesis
    using assms
    by (auto simp: loadConfigJSON_def Let_def state_ok_issue applyGlobal_ok split: sum.split)
qed

lemma resetIface_ok: "state_ok s \<Longrightarrow> state_ok (resetIface r s)"
  by (simp add: resetIface_def setInterfaceDefaults_def state_ok_set_iface)

lemma restrictMaster_fields [simp]:
  "Name (restrictMaster a b i) = Name i" "dhcp (restrictMaster a b i) = dhcp i"
  "Inuse (restrictMaster a b i) = Inuse i" "Master (restrictMaster a b i) = Master i"
  by (simp_all add: restrictMaster_def Let_def)

lemma applyIface_ok:
  assumes "state_ok s" and "r \<in> set (iface_refs s)"
  shows "state_ok (applyIface E r s) \<and> service_ok (heap (applyIface E r s) r) \<and>
    iface_refs (applyIface E r s) = filter (\<lambda>r'. r' \<noteq> r \<or> Inuse (heap s r)) (iface_refs s) \<and>
    (\<forall>r'. r' \<noteq> r \<longrightarrow> heap (applyIface E r s) r' = heap s r')"
proof (cases "Inuse (heap s r)")
  case True
  then show ?thesis
    using assms by (simp add: applyIface_def reloadServices_ok reloadServices_service_ok
        reloadServices.sock_heap_other)
next
  case False
  moreover have "registry_ok s"
    using assms(1) by (simp add: state_ok_def)
  ultimately show ?thesis
    using assms by (simp add: applyIface_def closeInterface_ok closeInterface_refs
        closeInterface_frame service_ok_idle)
qed

lemma applyIfaces_ok:
  assumes "state_ok s" and "distinct rs" and "set rs \<subseteq> set (iface_refs s)"
    and "\<And>r. r \<notin> set rs \<Longrightarrow> service_ok (heap s r)"
  shows "state_ok (fold (applyIface E) rs s) \<and> services_ok (fold (applyIface E) rs s) \<and>
    iface_refs (fold (applyIface E) rs s) =
      filter (\<lambda>r. r \<notin> set rs \<or> Inuse (heap s r)) (iface_refs s)"
  using assms
proof (induction rs arbitrary: s)
  case Nil
  then show ?case by (simp add: services_ok_def)
next
  case (Cons r rs)
  let ?t = "applyIface E r s"
  have t: "state_ok ?t" "service_ok (heap ?t r)"
    "iface_refs ?t = filter (\<lambda>r'. r' \<noteq> r \<or> Inuse (heap s r)) (iface_refs s)"
    "\<And>r'. r' \<noteq> r \<Longrightarrow> heap ?t r' = heap s r'"
    using applyIface_ok [of s r] Cons.prems by auto
  have "state_ok (fold (applyIface E) rs ?t) \<and> services_ok (fold (applyIface E) rs ?t) \<and>
    iface_refs (fold (applyIface E) rs ?t) =
      filter (\<lambda>r. r \<notin> set rs \<or> Inuse (heap ?t r)) (iface_refs ?t)"
  proof (rule Cons.IH)
    show "set rs \<subseteq> set (iface_refs ?t)"
      using Cons.prems t(3) by auto
    show "service_ok (heap ?t r')" if "r' \<notin> set rs" for r'
      using that t(2) t(4) [of r'] Cons.prems(4) [of r'] by (cases "r' = r") auto
  qed (use t Cons.prems in auto)
  moreover have "filter (\<lambda>r. r \<notin> set rs \<or> Inuse (heap ?t r)) (iface_refs ?t) =
      filter (\<lambda>r'. r' \<notin> set (r # rs) \<or> Inuse (heap s r')) (iface_refs s)"
  proof -
    have "Inuse (heap ?t r') = Inuse (heap s r')" if "r' \<in> set rs" for r'
      using that t(4) [of r'] Cons.prems(2) by (cases "r' = r") auto
    then show ?thesis
      unfolding t(3) filter_filter using Cons.prems(2) by (intro filter_cong) auto
  qed
  ultimately show ?case
    by simp
qed


definition reload_plan :: "env \<Rightarrow> unmarshal \<Rightarrow> Config \<Rightarrow> state \<Rightarrow> state" where
  \<comment> \<open>the state of \<open>Reload\<close> before its last loop\<close>
  "reload_plan E unm cfg s =
     (let s2 = scheduleMirrorSweep (loadConfigJSON E unm cfg (fold resetIface (iface_refs s) s))
      in fold (\<lambda>r. set_iface r (restrictMaster (anySlave DHCPv4 s2) (anySlave ARP s2))) (iface_refs s2) s2)"

lemma Reload_plan:
  "Reload E unm cfg s = fold (applyIface E) (iface_refs (reload_plan E unm cfg s)) (reload_plan E unm cfg s)"
  by (simp add: Reload_def reload_plan_def Let_def)

lemma loaded_ok:
  assumes "state_ok s"
  shows "state_ok (loadConfigJSON E unm cfg (fold resetIface (iface_refs s) s))"
  using assms
  by (intro loadConfigJSON_ok fold_invariant [where I = state_ok]) (simp_all add: resetIface_ok)

lemma reload_plan_ok:
  assumes "state_ok s"
  shows "state_ok (reload_plan E unm cfg s)"
  unfolding reload_plan_def Let_def
  by (rule fold_invariant [where I = state_ok])
    (simp_all add: state_ok_set_iface scheduleMirrorSweep_ok loaded_ok [OF assms])

lemma Reload_result:
  assumes "state_ok s"
  shows "state_ok (Reload E unm cfg s) \<and> services_ok (Reload E unm cfg s) \<and>
    iface_refs (Reload E unm cfg s) =
      filter (\<lambda>r. Inuse (heap (reload_plan E unm cfg s) r)) (iface_refs (reload_plan E unm cfg s))"
proof -
  let ?p = "reload_plan E unm cfg s"
  have ok: "state_ok ?p"
    by (rule reload_plan_ok [OF assms])
  then have "distinct (iface_refs ?p)"
    and "\<And>r. r \<notin> set (iface_refs ?p) \<Longrightarrow> service_ok (heap ?p r)"
    by (auto simp: state_ok_def registry_ok_def socks_wf_def intro: service_ok_idle)
  with applyIfaces_ok [OF ok, of "iface_refs ?p" E] show ?thesis
    by (auto simp: Reload_plan intro: filter_cong)
qed

section \<open>What Reload makes of the registry\<close>

lemma parseInterfaceJSON_other:
  assumes "state_ok s" and "r \<in> set (iface_refs s)" and "Name (heap s r) \<noteq> name"
  shows "heap (snd (parseInterfaceJSON E name obj s)) r = heap s r"
proof -
  obtain r' t where f: "findOrCreateInterface name s = (r', t)" by fastforce
  note ok = findOrCreateInterface_ok [OF assms(1) f]
  have reg: "registry_ok s"
    using assms(1) by (simp add: state_ok_def)
  have old: "heap t r = heap s r"
  proof -
    have "r < nextRef s"
      using assms(2) reg by (auto simp: registry_ok_def iface_refs_def)
    then show ?thesis
      using f by (auto simp: findOrCreateInterface_def setInterfaceDefaults_def Let_def split: option.splits)
  qed
  then have "r \<noteq> r'"
    using ok(3) assms(3) by auto
  then show ?thesis
    using old
    by (simp add: parseInterfaceJSON_def f Let_def adoptLink_def disableServices.sock_heap_other
        split: option.split sum.split)
qed

lemma parseInterfaceJSON_registers:
  assumes "state_ok s"
  shows "set (interfaces s) \<subseteq> set (interfaces (snd (parseInterfaceJSON E name obj s))) \<and>
    fst ` set (interfaces (snd (parseInterfaceJSON E name obj s))) = insert name (fst ` set (interfaces s))"
proof -
  obtain r' t where f: "findOrCreateInterface name s = (r', t)" by fastforce
  have i: "interfaces (snd (parseInterfaceJSON E name obj s)) = interfaces t"
    by (simp add: parseInterfaceJSON_def f Let_def adoptLink_def split: option.split sum.split)
  show ?thesis
    unfolding i using f
    by (auto simp: findOrCreateInterface_def setInterfaceDefaults_def Let_def map_of_eq_None_iff
        split: option.splits dest: map_of_SomeD intro: rev_image_eqI)
qed

end
