(* ===== verification/Reload_Effects.thy ===== *)
theory Reload_Effects
  imports Invariants
begin

text \<open>
  What \<open>Reload\<close> makes of the registry: every entry of the file whose device exists ends up
  registered as the entry asks, an interface whose name is not in the file is dropped, and without
  a relaying slave no master keeps a socket.
\<close>

lemma snd_findOrCreate_known:
  "map_of (interfaces s) name = Some r \<Longrightarrow> findOrCreateInterface name s = (r, s)"
  by (simp add: findOrCreateInterface_def)

definition pristine :: "Interface \<Rightarrow> bool" where
  \<comment> \<open>reset and not yet configured\<close>
  "pristine i \<longleftrightarrow> \<not> Inuse i \<and> DHCPv4 i = ModeRelay \<and> ARP i = ModeRelay \<and> LearnRoutes i"

text \<open>The interfaces whose name has not come up in the file yet are as \<open>resetIface\<close> left them.\<close>

definition untouched :: "string set \<Rightarrow> state \<Rightarrow> bool" where
  "untouched names s \<longleftrightarrow> (\<forall>(n, r) \<in> set (interfaces s). n \<notin> names \<longrightarrow> pristine (heap s r))"

definition parsed :: "env \<Rightarrow> (string \<times> jsonIface) list \<Rightarrow> state \<Rightarrow> state" where
  "parsed E objs = fold (\<lambda>(name, obj) s. snd (parseInterfaceJSON E name obj s)) objs"

lemma registered_iff:
  assumes "registry_ok s"
  shows "(n, r) \<in> set (interfaces s) \<longleftrightarrow> r \<in> set (iface_refs s) \<and> Name (heap s r) = n"
  using assms registered_name [OF assms]
  by (auto simp: registry_ok_def iface_refs_def intro: rev_image_eqI)

lemma untouched_parse:
  assumes "state_ok s" and "untouched names s"
  shows "untouched (insert name names) (snd (parseInterfaceJSON E name obj s))"
proof -
  let ?t = "snd (parseInterfaceJSON E name obj s)"
  have regs: "registry_ok s" and regt: "registry_ok ?t"
    using assms(1) parseInterfaceJSON_ok [OF assms(1)] by (simp_all add: state_ok_def)
  have "pristine (heap ?t r)" if m: "(n, r) \<in> set (interfaces ?t)" "n \<noteq> name" "n \<notin> names" for n r
  proof -
    have "n \<in> fst ` set (interfaces s)"
      using parseInterfaceJSON_registers [OF assms(1), of E name obj] m by (force simp: image_iff)
    then obtain r' where r': "(n, r') \<in> set (interfaces s)" by auto
    then have "(n, r') \<in> set (interfaces ?t)"
      using parseInterfaceJSON_registers [OF assms(1), of E name obj] by blast
    then have "r' = r"
      using m(1) regt by (auto simp: registry_ok_def dest: eq_key_imp_eq_value)
    then have "heap ?t r = heap s r"
      using r' m(2) parseInterfaceJSON_other [OF assms(1), of r name E obj]
      by (auto simp: registered_iff [OF regs])
    moreover have "pristine (heap s r)"
      using assms(2) r' m(3) \<open>r' = r\<close> by (auto simp: untouched_def)
    ultimately show ?thesis by simp
  qed
  then show ?thesis
    by (auto simp: untouched_def)
qed

definition configured :: "jsonIface \<Rightarrow> LinkAttrs \<Rightarrow> string \<Rightarrow> Interface \<Rightarrow> bool" where
  \<comment> \<open>what a config entry with a device name, whose link exists, asks for\<close>
  "configured obj link ifname i \<longleftrightarrow>
     Inuse i \<and> Ifname i = ifname \<and> Ifindex i = la_Index link \<and>
     Running i = (la_RawFlags link AND IFF_RUNNING \<noteq> 0) \<and>
     DHCPv4 i = ModeRelay \<and> ARP i = ModeRelay \<and>
     (\<forall>b. ji_Master obj = Some b \<longrightarrow> Master i = b) \<and>
     LearnRoutes i = (case ji_ArpproxyRouting obj of Some b \<Rightarrow> b | None \<Rightarrow> True)"

lemma parse_configures:
  assumes "state_ok s" and "untouched names s" and "name \<notin> names"
    and "ji_Ifname obj = Some ifname" and "\<And>h. ans_linkByName E h ifname = Inr link"
  shows "\<exists>r. (name, r) \<in> set (interfaces (snd (parseInterfaceJSON E name obj s))) \<and>
    configured obj link ifname (heap (snd (parseInterfaceJSON E name obj s)) r)"
proof -
  obtain r t where f: "findOrCreateInterface name s = (r, t)" by fastforce
  note ok = findOrCreateInterface_ok [OF assms(1) f]
  have "registry_ok s"
    using assms(1) by (simp add: state_ok_def)
  have p: "pristine (heap t r)"
  proof (cases "map_of (interfaces s) name")
    case None
    then show ?thesis
      using f by (auto simp: findOrCreateInterface_def setInterfaceDefaults_def Let_def
          pristine_def new_Interface_def)
  next
    case (Some r')
    then show ?thesis
      using f assms(2,3) by (auto simp: findOrCreateInterface_def untouched_def dest: map_of_SomeD)
  qed
  have "registry_ok t" using ok(1) by (simp add: state_ok_def)
  then have m: "(name, r) \<in> set (interfaces t)"
    using ok by (simp add: registered_iff)
  have j: "snd (parseInterfaceJSON E name obj s) =
      set_iface r (configureIface obj) (adoptLink E ifname link r (issue (LinkByName ifname) t))"
    using f assms(4,5) by (simp add: parseInterfaceJSON_def Let_def)
  have "configured obj link ifname (heap (snd (parseInterfaceJSON E name obj s)) r)"
    using p by (auto simp: j configured_def configureIface_def adoptLink_def Let_def pristine_def
        split: option.split)
  moreover have "interfaces (snd (parseInterfaceJSON E name obj s)) = interfaces t"
    by (simp add: j adoptLink_def Let_def)
  ultimately show ?thesis
    using m by auto
qed

lemma parsed_keeps:
  assumes "state_ok s" and "(n, r) \<in> set (interfaces s)" and "n \<notin> fst ` set objs"
  shows "(n, r) \<in> set (interfaces (parsed E objs s)) \<and> heap (parsed E objs s) r = heap s r"
  using assms
proof (induction objs arbitrary: s)
  case Nil
  then show ?case by (simp add: parsed_def)
next
  case (Cons x objs)
  let ?t = "snd (parseInterfaceJSON E (fst x) (snd x) s)"
  have "registry_ok s" using Cons.prems(1) by (simp add: state_ok_def)
  with Cons.prems have "r \<in> set (iface_refs s)" "Name (heap s r) \<noteq> fst x"
    by (auto simp: registered_iff)
  then have "heap ?t r = heap s r"
    using parseInterfaceJSON_other [OF Cons.prems(1)] by blast
  moreover have "(n, r) \<in> set (interfaces ?t)"
    using parseInterfaceJSON_registers [OF Cons.prems(1)] Cons.prems(2) by blast
  moreover have "parsed E (x # objs) s = parsed E objs ?t"
    by (simp add: parsed_def case_prod_beta)
  ultimately show ?case
    using Cons.IH [of ?t] Cons.prems parseInterfaceJSON_ok by auto
qed

lemma parsed_ok: "state_ok s \<Longrightarrow> state_ok (parsed E objs s)"
  unfolding parsed_def
  by (rule fold_invariant [where I = state_ok]) (auto simp: parseInterfaceJSON_ok)

lemma parsed_configures:
  assumes "state_ok s" and "untouched names s" and "(name, obj) \<in> set objs"
    and "distinct (map fst objs)" and "fst ` set objs \<inter> names = {}"
    and "ji_Ifname obj = Some ifname" and "\<And>h. ans_linkByName E h ifname = Inr link"
  shows "\<exists>r. (name, r) \<in> set (interfaces (parsed E objs s)) \<and>
    configured obj link ifname (heap (parsed E objs s) r)"
  using assms(1-5)
proof (induction objs arbitrary: s names)
  case Nil
  then show ?case by simp
next
  case (Cons x objs)
  let ?t = "snd (parseInterfaceJSON E (fst x) (snd x) s)"
  have p: "parsed E (x # objs) s = parsed E objs ?t"
    by (simp add: parsed_def case_prod_beta)
  have t: "state_ok ?t" "untouched (insert (fst x) names) ?t"
    using Cons.prems(1,2) by (simp_all add: parseInterfaceJSON_ok untouched_parse)
  show ?case
  proof (cases "x = (name, obj)")
    case True
    then obtain r where "(name, r) \<in> set (interfaces ?t)" "configured obj link ifname (heap ?t r)"
      using parse_configures [OF Cons.prems(1,2) _ assms(6,7), of name] Cons.prems(5) by auto
    then show ?thesis
      using parsed_keeps [OF t(1), of name r objs E] Cons.prems(4) True unfolding p by auto
  next
    case False
    then show ?thesis
      using Cons.IH [OF t] Cons.prems(3-5) unfolding p by auto
  qed
qed


lemma parsed_refs: "state_ok s \<Longrightarrow> set (iface_refs s) \<subseteq> set (iface_refs (parsed E objs s))"
proof (induction objs arbitrary: s)
  case Nil
  then show ?case by (simp add: parsed_def)
next
  case (Cons x objs)
  let ?t = "snd (parseInterfaceJSON E (fst x) (snd x) s)"
  have "set (iface_refs s) \<subseteq> set (iface_refs ?t)"
    using parseInterfaceJSON_registers [OF Cons.prems, of E "fst x" "snd x"] by (auto simp: iface_refs_def)
  moreover have "parsed E (x # objs) s = parsed E objs ?t"
    by (simp add: parsed_def case_prod_beta)
  ultimately show ?case
    using Cons.IH [of ?t] parseInterfaceJSON_ok [OF Cons.prems] by auto
qed

lemma untouched_parsed:
  assumes "state_ok s" and "untouched names s"
  shows "untouched (names \<union> fst ` set objs) (parsed E objs s)"
  using assms
proof (induction objs arbitrary: s names)
  case Nil
  then show ?case by (simp add: parsed_def)
next
  case (Cons x objs)
  let ?t = "snd (parseInterfaceJSON E (fst x) (snd x) s)"
  have "untouched (insert (fst x) names \<union> fst ` set objs) (parsed E objs ?t)"
    using Cons.prems by (intro Cons.IH untouched_parse) (simp_all add: parseInterfaceJSON_ok)
  moreover have "parsed E (x # objs) s = parsed E objs ?t"
    by (simp add: parsed_def case_prod_beta)
  ultimately show ?case
    by (simp add: insert_commute)
qed

section \<open>The loops of Reload\<close>

lemma fold_set_iface:
  "distinct rs \<Longrightarrow> heap (fold (\<lambda>r. set_iface r f) rs s) r' = (if r' \<in> set rs then f (heap s r') else heap s r')"
  by (induction rs arbitrary: s) auto

lemma fold_set_iface_frame [simp]:
  "interfaces (fold (\<lambda>r. set_iface r f) rs s) = interfaces s"
  "trace (fold (\<lambda>r. set_iface r f) rs s) = trace s"
  "iface_refs (fold (\<lambda>r. set_iface r f) rs s) = iface_refs s"
  by (induction rs arbitrary: s) simp_all

lemma resetIface_alt:
  "resetIface r = set_iface r (\<lambda>i. i\<lparr>DHCPv4 := ModeRelay, ARP := ModeRelay, LearnRoutes := True, Inuse := False\<rparr>)"
  by (rule ext) (simp add: resetIface_def setInterfaceDefaults_def set_iface_def)

lemma reset_state:
  assumes "state_ok s"
  shows "state_ok (fold resetIface (iface_refs s) s)" and "untouched {} (fold resetIface (iface_refs s) s)"
    and "trace (fold resetIface (iface_refs s) s) = trace s"
    and "interfaces (fold resetIface (iface_refs s) s) = interfaces s"
proof -
  have f: "fold resetIface rs = fold (\<lambda>r. set_iface r (\<lambda>i. i\<lparr>DHCPv4 := ModeRelay, ARP := ModeRelay,
      LearnRoutes := True, Inuse := False\<rparr>)) rs" for rs
    by (simp add: resetIface_alt [abs_def])
  show "state_ok (fold resetIface (iface_refs s) s)"
    using assms by (intro fold_invariant [where I = state_ok]) (simp_all add: resetIface_ok)
  have d: "distinct (iface_refs s)"
    using assms by (simp add: state_ok_def registry_ok_def)
  have "r \<in> set (iface_refs s)" if "(n, r) \<in> set (interfaces s)" for n r
    using that by (auto simp: iface_refs_def intro: rev_image_eqI)
  then show "untouched {} (fold resetIface (iface_refs s) s)"
    by (auto simp: untouched_def f fold_set_iface [OF d] pristine_def)
  show "trace (fold resetIface (iface_refs s) s) = trace s"
    and "interfaces (fold resetIface (iface_refs s) s) = interfaces s"
    by (simp_all add: f)
qed

lemma applyGlobal_frame [simp]:
  "heap (applyGlobal cfg root s) = heap s" "interfaces (applyGlobal cfg root s) = interfaces s"
  by (auto simp: applyGlobal_def Let_def split: option.split)

lemma untouched_cong: "heap t = heap s \<Longrightarrow> interfaces t = interfaces s \<Longrightarrow> untouched n t = untouched n s"
  by (simp add: untouched_def)

text \<open>The state after the file was loaded, and the names it configures.\<close>

definition file_root :: "env \<Rightarrow> unmarshal \<Rightarrow> Config \<Rightarrow> state \<Rightarrow> jsonRoot option" where
  \<comment> \<open>what the config file decodes to, when it can be read and parsed\<close>
  "file_root E unm cfg s = (case ans_readFile E (trace s) (ConfigFile cfg) of
     Inl e \<Rightarrow> None | Inr dat \<Rightarrow> (case unm dat of Inl e \<Rightarrow> None | Inr root \<Rightarrow> Some root))"

lemma loadConfigJSON_eq:
  "loadConfigJSON E unm cfg s = (case file_root E unm cfg s of
     None \<Rightarrow> issue (ReadFile (ConfigFile cfg)) s
   | Some root \<Rightarrow> parsed E (jr_Interfaces root) (applyGlobal cfg root (issue (ReadFile (ConfigFile cfg)) s)))"
  by (simp add: loadConfigJSON_def file_root_def parsed_def Let_def split: sum.split)

definition plan_of :: "state \<Rightarrow> state" where
  \<comment> \<open>\<open>Reload\<close> between loading and its last loop\<close>
  "plan_of s = (let s2 = scheduleMirrorSweep s
     in fold (\<lambda>r. set_iface r (restrictMaster (anySlave DHCPv4 s2) (anySlave ARP s2))) (iface_refs s2) s2)"

lemma reload_plan_alt:
  "reload_plan E unm cfg s = plan_of (loadConfigJSON E unm cfg (fold resetIface (iface_refs s) s))"
  by (simp add: reload_plan_def plan_of_def Let_def)

lemma anySlave_cong: "heap t = heap s \<Longrightarrow> iface_refs t = iface_refs s \<Longrightarrow> anySlave m t = anySlave m s"
  by (simp add: anySlave_def)

lemma plan_of_heap:
  assumes "state_ok s" and "r \<in> set (iface_refs s)"
  shows "heap (plan_of s) r = restrictMaster (anySlave DHCPv4 s) (anySlave ARP s) (heap s r)"
proof -
  have "distinct (iface_refs s)"
    using assms(1) by (simp add: state_ok_def registry_ok_def)
  then show ?thesis
    using assms(2) anySlave_cong [of "scheduleMirrorSweep s" s]
    by (simp add: plan_of_def Let_def fold_set_iface scheduleMirrorSweep_ok)
qed

lemma plan_of_interfaces [simp]: "interfaces (plan_of s) = interfaces s" "iface_refs (plan_of s) = iface_refs s"
  by (simp_all add: plan_of_def Let_def scheduleMirrorSweep_ok)

definition sans_socks :: "Interface \<Rightarrow> Interface" where
  "sans_socks i = i\<lparr>dhcp := []\<rparr>"

lemma applyIface_sans: "sans_socks (heap (applyIface E r s) r') = sans_socks (heap s r')"
  by (auto simp: applyIface_def sans_socks_def closeInterface_def Let_def)

lemma applyIfaces_sans: "sans_socks (heap (fold (applyIface E) rs s) r) = sans_socks (heap s r)"
  by (rule fold_frame [where p = "\<lambda>s. sans_socks (heap s r)"]) (rule applyIface_sans)

section \<open>The result\<close>

abbreviation loaded :: "env \<Rightarrow> unmarshal \<Rightarrow> Config \<Rightarrow> state \<Rightarrow> state" where
  "loaded E unm cfg s \<equiv> loadConfigJSON E unm cfg (fold resetIface (iface_refs s) s)"

lemma Reload_registered:
  assumes "state_ok s"
  shows "(n, r) \<in> set (interfaces (Reload E unm cfg s)) \<longleftrightarrow>
      (n, r) \<in> set (interfaces (loaded E unm cfg s)) \<and> Inuse (heap (loaded E unm cfg s) r)"
    and "r \<in> set (iface_refs (loaded E unm cfg s)) \<Longrightarrow> sans_socks (heap (Reload E unm cfg s) r) =
      sans_socks (restrictMaster (anySlave DHCPv4 (loaded E unm cfg s)) (anySlave ARP (loaded E unm cfg s))
        (heap (loaded E unm cfg s) r))"
proof -
  let ?l = "loaded E unm cfg s" and ?t = "Reload E unm cfg s"
  have l: "state_ok ?l"
    by (rule loaded_ok [OF assms])
  have t: "state_ok ?t" and refs: "iface_refs ?t = filter (\<lambda>r. Inuse (heap (plan_of ?l) r)) (iface_refs ?l)"
    using Reload_result [OF assms, of E unm cfg] by (simp_all add: reload_plan_alt)
  have regl: "registry_ok ?l" and regt: "registry_ok ?t"
    using l t by (simp_all add: state_ok_def)
  have sans: "sans_socks (heap ?t r) = sans_socks (heap (plan_of ?l) r)" for r
    by (simp add: Reload_plan reload_plan_alt applyIfaces_sans)
  then have heap: "sans_socks (heap ?t r) = sans_socks (restrictMaster (anySlave DHCPv4 ?l) (anySlave ARP ?l) (heap ?l r))"
    if "r \<in> set (iface_refs ?l)" for r
    using plan_of_heap [OF l that] by simp
  show "r \<in> set (iface_refs ?l) \<Longrightarrow> sans_socks (heap ?t r) =
      sans_socks (restrictMaster (anySlave DHCPv4 ?l) (anySlave ARP ?l) (heap ?l r))"
    by (rule heap)
  have name: "Name (heap ?t r) = Name (heap ?l r)" if "r \<in> set (iface_refs ?l)"
    using arg_cong [OF heap [OF that], of Name] by (simp add: sans_socks_def)
  have "Inuse (heap (plan_of ?l) r) = Inuse (heap ?l r)" if "r \<in> set (iface_refs ?l)"
    using plan_of_heap [OF l that] by simp
  with name show "(n, r) \<in> set (interfaces ?t) \<longleftrightarrow> (n, r) \<in> set (interfaces ?l) \<and> Inuse (heap ?l r)"
    unfolding registered_iff [OF regl] registered_iff [OF regt] refs by auto
qed

lemma file_root_reset:
  "state_ok s \<Longrightarrow> file_root E unm cfg (fold resetIface (iface_refs s) s) = file_root E unm cfg s"
  by (simp add: file_root_def reset_state(3))

lemma loaded_untouched:
  assumes "state_ok s"
  shows "untouched (case file_root E unm cfg s of None \<Rightarrow> {} | Some root \<Rightarrow> fst ` set (jr_Interfaces root))
    (loaded E unm cfg s)"
proof -
  let ?r = "issue (ReadFile (ConfigFile cfg)) (fold resetIface (iface_refs s) s)"
  have u: "untouched {} ?r" "\<And>root. untouched {} (applyGlobal cfg root ?r)"
    using reset_state(2) [OF assms] by (simp_all add: untouched_def)
  have ok: "state_ok (applyGlobal cfg root ?r)" for root
    by (intro applyGlobal_ok state_ok_issue reset_state(1) assms)
  show ?thesis
    using u untouched_parsed [OF ok u(2)]
    by (auto simp: loadConfigJSON_eq file_root_reset [OF assms] split: option.split)
qed

lemma drops_absent:
  assumes "state_ok s"
  shows "fst ` set (interfaces (Reload E unm cfg s)) \<subseteq>
    (case file_root E unm cfg s of None \<Rightarrow> {} | Some root \<Rightarrow> fst ` set (jr_Interfaces root))"
proof
  fix n
  assume "n \<in> fst ` set (interfaces (Reload E unm cfg s))"
  then obtain r where "(n, r) \<in> set (interfaces (loaded E unm cfg s))" "Inuse (heap (loaded E unm cfg s) r)"
    using Reload_registered(1) [OF assms] by auto
  then show "n \<in> (case file_root E unm cfg s of None \<Rightarrow> {} | Some root \<Rightarrow> fst ` set (jr_Interfaces root))"
    using loaded_untouched [OF assms, of E unm cfg] by (auto simp: untouched_def pristine_def)
qed

lemma unreadable_drops_all:
  assumes "state_ok s" and "file_root E unm cfg s = None"
  shows "interfaces (Reload E unm cfg s) = [] \<and> (\<forall>r. dhcp (heap (Reload E unm cfg s) r) = [])"
proof -
  have "interfaces (Reload E unm cfg s) = []"
    using drops_absent [OF assms(1), of E unm cfg] assms(2) by simp
  then show ?thesis
    using Reload_result [OF assms(1), of E unm cfg]
    by (simp add: state_ok_def socks_wf_def iface_refs_def)
qed

text \<open>C30: A reload removes what the file no longer holds: afterwards only interfaces named in the file are
  registered, and an interface that is not registered has no open socket; if the file cannot be read or
  parsed, no interface is left and every socket is closed.\<close>
theorem Reload_drops_absent:
  assumes "state_ok s"
  shows "fst ` set (interfaces (Reload E unm cfg s)) \<subseteq>
      (case file_root E unm cfg s of None \<Rightarrow> {} | Some root \<Rightarrow> fst ` set (jr_Interfaces root)) \<and>
    (\<forall>r. r \<notin> snd ` set (interfaces (Reload E unm cfg s)) \<longrightarrow> dhcp (heap (Reload E unm cfg s) r) = []) \<and>
    (file_root E unm cfg s = None \<longrightarrow>
      interfaces (Reload E unm cfg s) = [] \<and> (\<forall>r. dhcp (heap (Reload E unm cfg s) r) = []))"
  using drops_absent [OF assms, of E unm cfg] unreadable_drops_all [OF assms, of E unm cfg]
    Reload_result [OF assms, of E unm cfg]
  by (auto simp: state_ok_def socks_wf_def iface_refs_def)

lemma sample_state_ok: "state_ok sample_state"
  by (auto simp: state_ok_def registry_ok_def socks_wf_def mirror_ok_def sample_state_def iface_refs_def
      sample_lan_def sample_wan_def new_Interface_def split: if_splits)

definition sample_cfg :: Config where
  "sample_cfg = \<lparr>ConfigFile = ''c.json'', LogLevelCmdline = False\<rparr>"

definition sample_entry :: "string \<Rightarrow> bool option \<Rightarrow> jsonIface" where
  "sample_entry ifname m = \<lparr>ji_Ifname = Some ifname, ji_Master = m, ji_ArpproxyRouting = None\<rparr>"

definition sample_root :: "(string \<times> jsonIface) list \<Rightarrow> jsonRoot" where
  "sample_root objs = \<lparr>jr_Global = None, jr_Interfaces = objs\<rparr>"

definition sample_env :: env where
  \<comment> \<open>the file can be read and every device exists, as index 7 and running\<close>
  "sample_env = quiet_env\<lparr>ans_readFile := \<lambda>h p. Inr [],
     ans_linkByName := \<lambda>h n. Inr \<lparr>la_Name = n, la_Index = 7, la_RawFlags = IFF_RUNNING\<rparr>\<rparr>"

lemma sample_file [simp]:
  "file_root sample_env (\<lambda>b. Inr root) cfg s = Some root"
  "ans_linkByName sample_env h n = Inr \<lparr>la_Name = n, la_Index = 7, la_RawFlags = IFF_RUNNING\<rparr>"
  by (simp_all add: file_root_def sample_env_def)

lemma Reload_drops_absent_witness:
  "fst ` set (interfaces (Reload sample_env (\<lambda>b. Inr (sample_root [(''wan'', sample_entry ''eth0'' (Some True))]))
      sample_cfg sample_state)) \<subseteq> {''wan''} \<and>
   interfaces (Reload quiet_env (\<lambda>b. Inl ''bad'') sample_cfg sample_state) = []"
proof
  show "fst ` set (interfaces (Reload sample_env (\<lambda>b. Inr (sample_root [(''wan'', sample_entry ''eth0'' (Some True))]))
      sample_cfg sample_state)) \<subseteq> {''wan''}"
    using Reload_drops_absent [OF sample_state_ok, of sample_env
      "\<lambda>b. Inr (sample_root [(''wan'', sample_entry ''eth0'' (Some True))])" sample_cfg]
    by (simp add: sample_root_def)
  show "interfaces (Reload quiet_env (\<lambda>b. Inl ''bad'') sample_cfg sample_state) = []"
    using Reload_drops_absent [OF sample_state_ok, of quiet_env "\<lambda>b. Inl ''bad''" sample_cfg]
    by (simp add: file_root_def quiet_env_def)
qed

text \<open>A reload configures what the file asks for: every entry with a device name whose device exists
  ends up registered under its name, in use, with the device's name, index and running state, as
  master or slave and learning routes or not as the entry says (routes are learned by default), and a
  slave relays both DHCP and ARP.\<close>
lemma Reload_configures:
  assumes "state_ok s" and "file_root E unm cfg s = Some root"
    and "distinct (map fst (jr_Interfaces root))" and "(name, obj) \<in> set (jr_Interfaces root)"
    and "ji_Ifname obj = Some ifname" and "\<And>h. ans_linkByName E h ifname = Inr link"
  shows "\<exists>r i. (name, r) \<in> set (interfaces (Reload E unm cfg s)) \<and> heap (Reload E unm cfg s) r = i \<and>
    Inuse i \<and> Ifname i = ifname \<and> Ifindex i = la_Index link \<and>
    Running i = (la_RawFlags link AND IFF_RUNNING \<noteq> 0) \<and>
    (\<forall>b. ji_Master obj = Some b \<longrightarrow> Master i = b) \<and>
    LearnRoutes i = (case ji_ArpproxyRouting obj of Some b \<Rightarrow> b | None \<Rightarrow> True) \<and>
    (\<not> Master i \<longrightarrow> DHCPv4 i = ModeRelay \<and> ARP i = ModeRelay)"
proof -
  let ?l = "loaded E unm cfg s"
  let ?r = "issue (ReadFile (ConfigFile cfg)) (fold resetIface (iface_refs s) s)"
  have ok: "state_ok (applyGlobal cfg root ?r)" "untouched {} (applyGlobal cfg root ?r)"
    using reset_state(1,2) [OF assms(1)]
    by (auto intro!: applyGlobal_ok state_ok_issue) (simp add: untouched_def)
  have l: "?l = parsed E (jr_Interfaces root) (applyGlobal cfg root ?r)"
    using assms(2) by (simp add: loadConfigJSON_eq file_root_reset [OF assms(1)])
  obtain r where r: "(name, r) \<in> set (interfaces ?l)" "configured obj link ifname (heap ?l r)"
    using parsed_configures [OF ok assms(4,3) _ assms(5,6)] unfolding l by auto
  then have "r \<in> set (iface_refs ?l)"
    by (auto simp: iface_refs_def intro: rev_image_eqI)
  then have sans: "sans_socks (heap (Reload E unm cfg s) r) =
      sans_socks (restrictMaster (anySlave DHCPv4 ?l) (anySlave ARP ?l) (heap ?l r))"
    by (rule Reload_registered(2) [OF assms(1)])
  have field: "p (heap (Reload E unm cfg s) r) = p (restrictMaster (anySlave DHCPv4 ?l) (anySlave ARP ?l) (heap ?l r))"
    if "\<And>i ds. p (i\<lparr>dhcp := ds\<rparr>) = p i" for p :: "Interface \<Rightarrow> 'x"
    using arg_cong [OF sans, of p] that by (simp add: sans_socks_def)
  have "(name, r) \<in> set (interfaces (Reload E unm cfg s))"
    using r by (simp add: Reload_registered(1) [OF assms(1)] configured_def)
  moreover have "Inuse (heap (Reload E unm cfg s) r)" "Ifname (heap (Reload E unm cfg s) r) = ifname"
    "Ifindex (heap (Reload E unm cfg s) r) = la_Index link"
    "Running (heap (Reload E unm cfg s) r) = (la_RawFlags link AND IFF_RUNNING \<noteq> 0)"
    "\<forall>b. ji_Master obj = Some b \<longrightarrow> Master (heap (Reload E unm cfg s) r) = b"
    "LearnRoutes (heap (Reload E unm cfg s) r) = (case ji_ArpproxyRouting obj of Some b \<Rightarrow> b | None \<Rightarrow> True)"
    "\<not> Master (heap (Reload E unm cfg s) r) \<longrightarrow> DHCPv4 (heap (Reload E unm cfg s) r) = ModeRelay \<and>
       ARP (heap (Reload E unm cfg s) r) = ModeRelay"
    using r(2) by (simp_all add: field configured_def restrictMaster_def Let_def)
  ultimately show ?thesis
    by blast
qed

lemma Reload_configures_witness:
  "\<exists>r. (''wlan'', r) \<in> set (interfaces (Reload sample_env (\<lambda>b. Inr (sample_root
      [(''wlan'', sample_entry ''wl0'' (Some False)), (''wan'', sample_entry ''eth0'' (Some True))])) sample_cfg sample_state))"
  using Reload_configures [OF sample_state_ok, of sample_env "\<lambda>b. Inr (sample_root
      [(''wlan'', sample_entry ''wl0'' (Some False)), (''wan'', sample_entry ''eth0'' (Some True))])" sample_cfg
      "sample_root [(''wlan'', sample_entry ''wl0'' (Some False)), (''wan'', sample_entry ''eth0'' (Some True))]"
      "''wlan''" "sample_entry ''wl0'' (Some False)" "''wl0''"]
  by (auto simp: sample_root_def sample_entry_def)

text \<open>Without a slave that relays DHCP (among the interfaces registered once the file is loaded), no
  interface has a DHCP socket after the reload.\<close>
lemma Reload_no_slave:
  assumes "state_ok s" and "\<not> anySlave DHCPv4 (loaded E unm cfg s)"
  shows "dhcp (heap (Reload E unm cfg s) r) = []"
proof (rule ccontr)
  let ?l = "loaded E unm cfg s" and ?t = "Reload E unm cfg s"
  assume socks: "dhcp (heap ?t r) \<noteq> []"
  have t: "state_ok ?t" "service_ok (heap ?t r)"
    using Reload_result [OF assms(1), of E unm cfg] by (auto simp: services_ok_def)
  then have "r \<in> set (iface_refs ?t)" and relay: "DHCPv4 (heap ?t r) = ModeRelay"
    using socks by (auto simp: state_ok_def socks_wf_def service_ok_def)
  then have r: "r \<in> set (iface_refs ?l)"
    using Reload_registered(1) [OF assms(1), of _ r E unm cfg]
    by (auto simp: iface_refs_def intro: rev_image_eqI)
  have "DHCPv4 (heap ?t r) = DHCPv4 (restrictMaster False (anySlave ARP ?l) (heap ?l r))"
    using arg_cong [OF Reload_registered(2) [OF assms(1) r], of DHCPv4] assms(2)
    by (simp add: sans_socks_def)
  then show False
    using relay assms(2) r by (auto simp: restrictMaster_def anySlave_def list_ex_iff Let_def split: if_splits)
qed

definition sample_wan_only :: state where
  "sample_wan_only = sample_state\<lparr>interfaces := [(''wan'', 0)],
     heap := (\<lambda>r. if r = 0 then sample_wan\<lparr>dhcp := [\<lparr>ds_id = 1, ds_fd = 6, ds_iface = 0\<rparr>]\<rparr> else new_Interface '''')\<rparr>"

lemma Reload_no_slave_witness:
  "dhcp (heap sample_wan_only 0) \<noteq> [] \<and> dhcp (heap (Reload quiet_env (\<lambda>b. Inl '''') sample_cfg sample_wan_only) 0) = []"
proof -
  have ok: "state_ok sample_wan_only"
    by (auto simp: state_ok_def registry_ok_def socks_wf_def mirror_ok_def sample_wan_only_def iface_refs_def
        sample_state_def new_Interface_def split: if_splits)
  have "\<not> anySlave DHCPv4 (loaded quiet_env (\<lambda>b. Inl '''') sample_cfg sample_wan_only)"
    by (simp add: loadConfigJSON_def quiet_env_def anySlave_def sample_wan_only_def iface_refs_def resetIface_alt)
  from Reload_no_slave [OF ok this, of 0] show ?thesis
    by (simp add: sample_wan_only_def)
qed

section \<open>Surprises\<close>

lemma loaded_parsed:
  assumes "state_ok s" and "file_root E unm cfg s = Some root"
  shows "\<exists>g. state_ok g \<and> untouched {} g \<and> interfaces g = interfaces s \<and>
    loaded E unm cfg s = parsed E (jr_Interfaces root) g \<and>
    (\<forall>r \<in> set (iface_refs s). heap g r =
       (heap s r)\<lparr>DHCPv4 := ModeRelay, ARP := ModeRelay, LearnRoutes := True, Inuse := False\<rparr>)"
proof (intro exI conjI ballI)
  let ?f = "fold resetIface (iface_refs s) s"
  let ?g = "applyGlobal cfg root (issue (ReadFile (ConfigFile cfg)) ?f)"
  show "loaded E unm cfg s = parsed E (jr_Interfaces root) ?g"
    using assms(2) by (simp add: loadConfigJSON_eq file_root_reset [OF assms(1)])
  show "state_ok ?g"
    by (intro applyGlobal_ok state_ok_issue reset_state(1) assms(1))
  show "untouched {} ?g" "interfaces ?g = interfaces s"
    using reset_state(2,4) [OF assms(1)] by (simp_all add: untouched_def)
  show "heap ?g r = (heap s r)\<lparr>DHCPv4 := ModeRelay, ARP := ModeRelay, LearnRoutes := True, Inuse := False\<rparr>"
    if "r \<in> set (iface_refs s)" for r
    using assms(1) that fold_set_iface [of "iface_refs s"]
    by (simp add: resetIface_alt [abs_def] state_ok_def registry_ok_def)
qed

lemma parse_master:
  assumes "state_ok s" and "r \<in> set (iface_refs s)" and "Name (heap s r) = name \<longrightarrow> ji_Master obj = None"
  shows "Master (heap (snd (parseInterfaceJSON E name obj s)) r) = Master (heap s r)"
proof (cases "Name (heap s r) = name")
  case False
  then show ?thesis
    using parseInterfaceJSON_other [OF assms(1,2)] by simp
next
  case True
  have "registry_ok s"
    using assms(1) by (simp add: state_ok_def)
  then have "map_of (interfaces s) name = Some r"
    using assms(2) True registered_name [of s r] by (auto simp: registry_ok_def)
  then show ?thesis
    using assms(3) True snd_findOrCreate_known
    by (simp add: parseInterfaceJSON_def Let_def adoptLink_def configureIface_def split: option.split sum.split)
qed

lemma parsed_master:
  assumes "state_ok s" and "r \<in> set (iface_refs s)"
    and "\<forall>(n, obj) \<in> set objs. n = Name (heap s r) \<longrightarrow> ji_Master obj = None"
  shows "Master (heap (parsed E objs s) r) = Master (heap s r)"
  using assms
proof (induction objs arbitrary: s)
  case Nil
  then show ?case by (simp add: parsed_def)
next
  case (Cons x objs)
  let ?t = "snd (parseInterfaceJSON E (fst x) (snd x) s)"
  have ok: "state_ok ?t" and reg: "registry_ok ?t"
    using parseInterfaceJSON_ok [OF Cons.prems(1)] by (simp_all add: state_ok_def)
  have "registry_ok s"
    using Cons.prems(1) by (simp add: state_ok_def)
  then have "(Name (heap s r), r) \<in> set (interfaces ?t)"
    using registered_name Cons.prems(2) parseInterfaceJSON_registers [OF Cons.prems(1)] by blast
  then have m: "r \<in> set (iface_refs ?t)" "Name (heap ?t r) = Name (heap s r)"
    using registered_iff [OF reg] by auto
  have "Master (heap ?t r) = Master (heap s r)"
    using parse_master [OF Cons.prems(1,2), of "fst x" "snd x" E] Cons.prems(3) by (cases x) auto
  moreover have "parsed E (x # objs) s = parsed E objs ?t"
    by (simp add: parsed_def case_prod_beta)
  ultimately show ?case
    using Cons.IH [OF ok m(1)] Cons.prems(3) m(2) by simp
qed

text \<open>A reload does not reset the role of an interface: an interface that is registered and that stays
  in the file keeps being master (or slave) when its entry has no \<open>master\<close> key any more.\<close>
lemma Reload_keeps_role:
  assumes "state_ok s" and "(name, r) \<in> set (interfaces s)" and "file_root E unm cfg s = Some root"
    and "\<forall>(n, obj) \<in> set (jr_Interfaces root). n = name \<longrightarrow> ji_Master obj = None"
  shows "Master (heap (Reload E unm cfg s) r) = Master (heap s r)"
proof -
  obtain g where g: "state_ok g" "interfaces g = interfaces s"
    "loaded E unm cfg s = parsed E (jr_Interfaces root) g"
    and h: "heap g r = (heap s r)\<lparr>DHCPv4 := ModeRelay, ARP := ModeRelay, LearnRoutes := True, Inuse := False\<rparr>"
    using loaded_parsed [OF assms(1,3)] assms(2) by (metis snd_conv image_eqI iface_refs_def set_map)
  have reg: "registry_ok g"
    using g(1) by (simp add: state_ok_def)
  have "(name, r) \<in> set (interfaces g)"
    using assms(2) g(2) by simp
  then have r: "r \<in> set (iface_refs g)" "Name (heap g r) = name"
    using registered_iff [OF reg] by blast+
  then have "Master (heap (loaded E unm cfg s) r) = Master (heap s r)"
    using parsed_master [OF g(1), of r "jr_Interfaces root" E] h assms(4) unfolding g(3) by simp
  moreover have m: "r \<in> set (iface_refs (loaded E unm cfg s))"
    using parsed_refs [OF g(1), of E "jr_Interfaces root"] r(1) unfolding g(3) by auto
  ultimately show ?thesis
    using arg_cong [OF Reload_registered(2) [OF assms(1) m], of Master] by (simp add: sans_socks_def)
qed

lemma Reload_keeps_role_witness:
  "Master (heap (Reload sample_env (\<lambda>b. Inr (sample_root [(''wan'', sample_entry ''eth0'' None)])) sample_cfg sample_state) 1)"
  using Reload_keeps_role [OF sample_state_ok, of "''wan''" 1 sample_env
      "\<lambda>b. Inr (sample_root [(''wan'', sample_entry ''eth0'' None)])" sample_cfg
      "sample_root [(''wan'', sample_entry ''eth0'' None)]"]
  by (simp add: sample_root_def sample_entry_def)

text \<open>C34: A slave that the reload is about to drop still counts as a slave: if a registered slave is no
  longer in the file, every configured master with a device keeps relaying DHCP after the reload, even
  when no slave is left.\<close>
theorem Reload_removed_slave_counts:
  assumes "state_ok s" and "file_root E unm cfg s = Some root"
    and "distinct (map fst (jr_Interfaces root))"
    and "(gone, r) \<in> set (interfaces s)" and "\<not> Master (heap s r)" and "gone \<notin> fst ` set (jr_Interfaces root)"
    and "(name, obj) \<in> set (jr_Interfaces root)" and "ji_Master obj = Some True"
    and "ji_Ifname obj = Some ifname" and "\<And>h. ans_linkByName E h ifname = Inr link"
  shows "\<exists>m. (name, m) \<in> set (interfaces (Reload E unm cfg s)) \<and>
    Master (heap (Reload E unm cfg s) m) \<and> DHCPv4 (heap (Reload E unm cfg s) m) = ModeRelay"
proof -
  let ?l = "loaded E unm cfg s"
  obtain g where g: "state_ok g" "untouched {} g" "interfaces g = interfaces s"
    "?l = parsed E (jr_Interfaces root) g"
    and h: "heap g r = (heap s r)\<lparr>DHCPv4 := ModeRelay, ARP := ModeRelay, LearnRoutes := True, Inuse := False\<rparr>"
    using loaded_parsed [OF assms(1,2)] assms(4) by (metis snd_conv image_eqI iface_refs_def set_map)
  have "(gone, r) \<in> set (interfaces ?l) \<and> heap ?l r = heap g r"
    unfolding g(4) by (rule parsed_keeps [OF g(1)]) (use assms(4,6) g(3) in auto)
  then have slave: "anySlave DHCPv4 ?l"
    using assms(5) h by (force simp: anySlave_def list_ex_iff iface_refs_def)
  obtain m where m: "(name, m) \<in> set (interfaces ?l)" "configured obj link ifname (heap ?l m)"
    using parsed_configures [OF g(1,2) assms(7,3) _ assms(9,10)] unfolding g(4) by auto
  then have "m \<in> set (iface_refs ?l)"
    by (auto simp: iface_refs_def intro: rev_image_eqI)
  note sans = Reload_registered(2) [OF assms(1) this]
  have "Master (heap ?l m)"
    using m(2) assms(8) by (auto simp: configured_def)
  then have "Master (heap (Reload E unm cfg s) m)" "DHCPv4 (heap (Reload E unm cfg s) m) = ModeRelay"
    using arg_cong [OF sans, of Master] arg_cong [OF sans, of DHCPv4] m(2) slave
    by (simp_all add: sans_socks_def configured_def restrictMaster_def Let_def)
  then show ?thesis
    using m by (auto simp: Reload_registered(1) [OF assms(1)] configured_def)
qed

lemma Reload_removed_slave_counts_witness:
  "\<exists>m. Master (heap (Reload sample_env (\<lambda>b. Inr (sample_root [(''wan'', sample_entry ''eth0'' (Some True))]))
      sample_cfg sample_state) m) \<and>
    DHCPv4 (heap (Reload sample_env (\<lambda>b. Inr (sample_root [(''wan'', sample_entry ''eth0'' (Some True))]))
      sample_cfg sample_state) m) = ModeRelay"
  using Reload_removed_slave_counts [OF sample_state_ok, of sample_env
      "\<lambda>b. Inr (sample_root [(''wan'', sample_entry ''eth0'' (Some True))])" sample_cfg
      "sample_root [(''wan'', sample_entry ''eth0'' (Some True))]" "''lan''" 0 "''wan''"
      "sample_entry ''eth0'' (Some True)" "''eth0''"]
  by (auto simp: sample_root_def sample_entry_def)

lemma sint_word_of_int_64:
  "- (2 ^ 63) \<le> i \<Longrightarrow> i < 2 ^ 63 \<Longrightarrow> sint (word_of_int i :: 64 word) = i"
  by (simp add: sint_uint unsigned_of_int signed_take_bit_take_bit signed_take_bit_int_eq_self)



end
