(* ===== verification/Socket_Lifetime.thy ===== *)
theory Socket_Lifetime
  imports Reload_Effects
begin

text \<open>
  Sockets are never resurrected: no operation puts a socket that was closed back on an interface.
  \<open>fresh_socks s t\<close>: every socket of \<open>t\<close> was there in \<open>s\<close> already or was opened since.
\<close>

definition fresh_socks :: "state \<Rightarrow> state \<Rightarrow> bool" where
  "fresh_socks s t \<longleftrightarrow> nextSock s \<le> nextSock t \<and>
     (\<forall>r ds. ds \<in> set (dhcp (heap t r)) \<longrightarrow> ds \<in> set (dhcp (heap s r)) \<or> nextSock s \<le> ds_id ds)"

lemma fresh_socks_trans: "fresh_socks s t \<Longrightarrow> fresh_socks t u \<Longrightarrow> fresh_socks s u"
  unfolding fresh_socks_def by (meson le_trans)

lemma fresh_socks_same:
  "(\<And>r. dhcp (heap t r) = dhcp (heap s r)) \<Longrightarrow> nextSock t = nextSock s \<Longrightarrow> fresh_socks s t"
  by (simp add: fresh_socks_def)

lemma fresh_socks_refl: "fresh_socks s s"
  by (simp add: fresh_socks_def)

lemma fresh_socks_mirror: "mirror_step P s t \<Longrightarrow> fresh_socks s t"
  by (rule fresh_socks_same) (simp_all add: mirror_step_frame)

lemma fresh_socks_set_iface: "(\<And>i. dhcp (f i) = dhcp i) \<Longrightarrow> fresh_socks s (set_iface r f s)"
  by (rule fresh_socks_same) simp_all

lemma fresh_socks_step:
  assumes "nextSock s \<le> nextSock t" and "\<And>r'. r' \<noteq> r \<Longrightarrow> heap t r' = heap s r'"
    and "socks_ok (nextSock s) (nextSock t) r (heap t r)"
  shows "fresh_socks s t"
  unfolding fresh_socks_def
proof (intro conjI allI impI)
  fix r' ds
  assume "ds \<in> set (dhcp (heap t r'))"
  then show "ds \<in> set (dhcp (heap s r')) \<or> nextSock s \<le> ds_id ds"
    using assms(2) [of r'] assms(3) by (cases "r' = r") (auto simp: socks_ok_def list_all_iff)
qed (rule assms(1))

lemma fresh_socks_reload: "fresh_socks s (reloadServices E r s)"
  by (rule fresh_socks_step [of _ _ r])
    (simp_all add: reloadServices.nextSock_mono reloadServices.sock_heap_other reloadServices_socks)

lemma fresh_socks_disable: "fresh_socks s (disableServices E r s)"
  by (rule fresh_socks_step [of _ _ r])
    (simp_all add: disableServices.nextSock_mono disableServices.sock_heap_other socks_ok_def)

lemma fresh_socks_close: "fresh_socks s (closeInterface E r s)"
  by (rule fresh_socks_step [of _ _ r]) (simp_all add: closeInterface_frame socks_ok_def)

lemma fresh_socks_refresh: "fresh_socks s (refreshInterfaceAddresses E r s)"
  by (rule fresh_socks_same) simp_all

lemma fresh_socks_clear: "fresh_socks s (clearMirroredState E r s)"
  by (rule fresh_socks_mirror [OF clearMirroredState.only_mirror])

lemma fresh_socks_fold: "(\<And>x s. fresh_socks s (f x s)) \<Longrightarrow> fresh_socks s (fold f xs s)"
  by (rule fold_invariant [where I = "fresh_socks s"])
    (auto intro: fresh_socks_trans fresh_socks_refl)

lemmas fresh_socks_ops = fresh_socks_refl fresh_socks_reload fresh_socks_disable fresh_socks_close
  fresh_socks_refresh fresh_socks_clear

lemma fresh_socks_link: "fresh_socks s (handleLinkEvent E u s)"
proof (cases "ifaceByIfname s (lu_Name u)")
  case None
  then show ?thesis by (simp add: handleLinkEvent_def fresh_socks_refl)
next
  case (Some r)
  have cleared: "fresh_socks s (clearMirroredState E r (disableServices E r s))"
    by (rule fresh_socks_trans [OF fresh_socks_disable fresh_socks_clear])
  have set: "fresh_socks s t \<Longrightarrow> (\<And>i. dhcp (f i) = dhcp i) \<Longrightarrow> fresh_socks s (set_iface r f t)" for t f
    by (rule fresh_socks_trans [OF _ fresh_socks_set_iface])
  have rel: "fresh_socks s t \<Longrightarrow> fresh_socks s (reloadServices E r t)"
    "fresh_socks s t \<Longrightarrow> fresh_socks s (refreshInterfaceAddresses E r t)" for t
    by (auto intro: fresh_socks_trans fresh_socks_ops)
  show ?thesis
    using Some cleared
    by (auto simp: handleLinkEvent_def Let_def intro!: set rel fresh_socks_refl)
qed

lemma fresh_socks_parse: "fresh_socks s (snd (parseInterfaceJSON E name obj s))"
proof -
  obtain r t where f: "findOrCreateInterface name s = (r, t)" by fastforce
  have t: "fresh_socks s t"
    using f by (auto simp: findOrCreateInterface_def setInterfaceDefaults_def Let_def fresh_socks_def
        new_Interface_def split: option.splits if_splits)
  have set: "fresh_socks s u \<Longrightarrow> (\<And>i. dhcp (g i) = dhcp i) \<Longrightarrow> fresh_socks s (set_iface r g u)" for u g
    by (rule fresh_socks_trans [OF _ fresh_socks_set_iface])
  have ops: "fresh_socks s u \<Longrightarrow> fresh_socks s (refreshInterfaceAddresses E r u)"
    "fresh_socks s u \<Longrightarrow> fresh_socks s (clearMirroredState E r (disableServices E r u))"
    "fresh_socks s u \<Longrightarrow> fresh_socks s (issue c u)" for u c
    by (auto intro: fresh_socks_trans fresh_socks_mirror [OF issue.as_mirror_step] fresh_socks_refresh
        fresh_socks_trans [OF fresh_socks_trans [OF _ fresh_socks_disable] fresh_socks_clear])
  show ?thesis
    using t
    by (auto simp: parseInterfaceJSON_def f Let_def adoptLink_def configureIface_def
        split: option.split sum.split intro!: set ops)
qed

lemma fresh_socks_Reload: "fresh_socks s (Reload E unm cfg s)"
proof -
  have reset: "fresh_socks s (fold resetIface rs s)" for rs s
    by (rule fresh_socks_fold) (simp add: resetIface_alt fresh_socks_set_iface)
  have "fresh_socks s (applyGlobal cfg root (issue c s))" for s root c
    by (rule fresh_socks_same) (auto simp: applyGlobal_def SetLogLevel_def Let_def split: option.split)
  moreover have "fresh_socks s (parsed E objs s)" for s objs
    unfolding parsed_def by (rule fresh_socks_fold) (simp add: case_prod_beta fresh_socks_parse)
  ultimately have "fresh_socks s (parsed E objs (applyGlobal cfg root (issue c s)))" for s objs root c
    by (rule fresh_socks_trans)
  then have load: "fresh_socks s (loadConfigJSON E unm cfg s)" for s
    using fresh_socks_mirror [OF issue.as_mirror_step]
    unfolding loadConfigJSON_eq by (auto split: option.split)
  have plan: "fresh_socks s (plan_of s)" for s
    unfolding plan_of_def Let_def
    by (rule fresh_socks_trans [OF _ fresh_socks_fold])
      (auto intro!: fresh_socks_set_iface fresh_socks_same
        simp: scheduleMirrorSweep_ok scheduleMirrorSweep_def startMirrorSweep_def Let_def)
  have apply_all: "fresh_socks s (fold (applyIface E) rs s)" for rs s
    by (rule fresh_socks_fold) (simp add: applyIface_def fresh_socks_ops)
  show ?thesis
    unfolding Reload_plan reload_plan_alt
    by (meson reset load plan apply_all fresh_socks_trans)
qed

end
