(* ===== verification/Codec_Properties.thy ===== *)
theory Codec_Properties
  imports Dhcp_Options Samples
begin

text \<open>
  The properties of the packet functions, each with a witness on a concrete packet: a 240-byte
  header followed by a short options area.
\<close>

lemma sample_area [simp]:
  "area_items (sample_header op @ area) = fst (read_area area)"
  "area_ending (sample_header op @ area) = snd (read_area area)"
  by (simp_all add: area_items_def area_ending_def)

text \<open>C22: Parsing an options area gives exactly the options that were encoded in it: a non-empty
  result \<open>opts\<close> is returned if and only if the area is the encoding of pads and options, closed by
  an End option (anything may follow it), whose options in order are \<open>opts\<close>. In particular the
  parser accepts no area with a truncated option or without End.\<close>
theorem parseOptionArea_roundtrip:
  assumes "opts \<noteq> []"
  shows "parseOptionArea area = Some opts \<longleftrightarrow>
    (\<exists>its t. list_all wf_item its \<and> area = encode_items its @ ending_bytes (EndAt t) \<and>
       opts = options_of its)"
proof
  assume p: "parseOptionArea area = Some opts"
  obtain its e where r: "read_area area = (its, e)" by fastforce
  with p assms obtain t where "e = EndAt t" "opts = options_of its"
    by (auto simp: parseOptionArea_eq split: ending.splits)
  then show "\<exists>its t. list_all wf_item its \<and> area = encode_items its @ ending_bytes (EndAt t) \<and>
      opts = options_of its"
    using read_area_sound [OF r] by auto
next
  assume "\<exists>its t. list_all wf_item its \<and> area = encode_items its @ ending_bytes (EndAt t) \<and>
      opts = options_of its"
  then obtain its t where "list_all wf_item its" "area = encode_items its @ ending_bytes (EndAt t)"
    "opts = options_of its" by blast
  then show "parseOptionArea area = Some opts"
    using read_area_encode [of its "EndAt t"] by (simp add: parseOptionArea_eq)
qed

lemma parseOptionArea_roundtrip_witness:
  "parseOptionArea ([0, 53, 1, 5] @ [255, 9]) = Some [\<lparr>opt_code = 53, opt_data = [5]\<rparr>]"
proof (subst parseOptionArea_roundtrip)
  show "\<exists>its t. list_all wf_item its \<and> [0, 53, 1, 5] @ [255, 9] = encode_items its @ ending_bytes (EndAt t) \<and>
      [\<lparr>opt_code = 53, opt_data = [5]\<rparr>] = options_of its"
    by (intro exI [of _ "[Pad, Opt 53 [5]]"] exI [of _ "[9]"]) (simp add: options_of_def)
qed simp

lemma dhcpOptionByte_missing: "\<not> snd (dhcpOptionByte opts c) \<Longrightarrow> fst (dhcpOptionByte opts c) = 0"
  by (induction opts c rule: dhcpOptionByte.induct) auto

text \<open>C23: Reading the options of a packet never panics and honours option overload (52): the options
  of the main area come first, followed by those of \<open>file\<close> (overload 1 or 3) and then those of
  \<open>sname\<close> (overload 2 or 3); if the main area gives nothing, the packet has no options.\<close>
theorem parseDHCPOptions_overload:
  assumes "240 \<le> length dat"
  shows "\<exists>main fl sname.
    parseOptionArea (drop 240 dat) = Some main \<and>
    parseOptionArea (take 128 (drop 108 dat)) = Some fl \<and>
    parseOptionArea (take 64 (drop 44 dat)) = Some sname \<and>
    (let overload = fst (dhcpOptionByte main 52)
     in parseDHCPOptions dat = Some
       (if main = [] then []
        else main @ (if overload \<in> {1, 3} then fl else []) @ (if overload \<in> {2, 3} then sname else [])))"
proof -
  obtain main fl sname where p: "parseOptionArea (drop 240 dat) = Some main"
    "parseOptionArea (take 128 (drop 108 dat)) = Some fl"
    "parseOptionArea (take 64 (drop 44 dat)) = Some sname"
    by (simp add: parseOptionArea_eq)
  obtain ov ok where ov: "dhcpOptionByte main 52 = (ov, ok)" by fastforce
  then have "\<not> ok \<Longrightarrow> ov = 0"
    using dhcpOptionByte_missing [of main 52] by simp
  then have "parseDHCPOptions dat = Some
       (if main = [] then []
        else main @ (if ov \<in> {1, 3} then fl else []) @ (if ov \<in> {2, 3} then sname else []))"
    using assms p ov by (simp add: parseDHCPOptions_def appendField_eq)
  with p ov show ?thesis
    by (simp add: Let_def)
qed

lemma parseDHCPOptions_overload_witness:
  "\<exists>main fl sname. parseOptionArea (drop 240 (sample_header 1 @ [53, 1, 5, 255])) = Some main \<and>
    parseOptionArea (take 128 (drop 108 (sample_header 1 @ [53, 1, 5, 255]))) = Some fl \<and>
    parseOptionArea (take 64 (drop 44 (sample_header 1 @ [53, 1, 5, 255]))) = Some sname \<and>
    (let overload = fst (dhcpOptionByte main 52)
     in parseDHCPOptions (sample_header 1 @ [53, 1, 5, 255]) = Some
       (if main = [] then []
        else main @ (if overload \<in> {1, 3} then fl else []) @ (if overload \<in> {2, 3} then sname else [])))"
  by (rule parseDHCPOptions_overload) simp

text \<open>C24: Inserting the relay agent option leaves the packet alone when it carries option 82 already;
  otherwise it gives up on an area without End (or one that would exceed 1400 bytes), and on a
  well-formed area inserts the option with the slave's ifindex just before End, everything else
  unchanged and in place.\<close>
theorem insertAgentInfo_result:
  assumes "240 \<le> length dat"
  shows "insertAgentInfo dat i = Some
    (if carries 82 (area_items dat) then (dat, True)
     else case area_ending dat of
       EndAt t \<Rightarrow>
         if length dat + 8 \<le> dhcpMaxPktSize
         then (take 240 dat @ encode_items (area_items dat) @ agentInfoOption i @ ending_bytes (EndAt t), True)
         else ([], False)
     | Malformed r \<Rightarrow> (if r \<noteq> [] \<and> hd r = 82 then (dat, True) else ([], False)))"
  using insertAgentInfo_eq [OF assms, of i]
  by (auto simp: encode_agent_item split: ending.splits)

lemma insertAgentInfo_result_witness:
  "insertAgentInfo (sample_header 1 @ [53, 1, 1, 255]) 7 =
     Some (sample_header 1 @ [53, 1, 1] @ agentInfoOption 7 @ [255], True)"
  by (subst insertAgentInfo_result) (simp_all add: carries_def)

text \<open>C8: The client gets back what it sent: stripping the relay agent option from a packet into which
  it was inserted restores the packet byte for byte, and the insertion grew it by 8 bytes within
  the 1400-byte limit.\<close>
theorem strip_inverts_insert:
  assumes "240 \<le> length dat" and "insertAgentInfo dat i = Some (out, True)"
    and "\<not> carries 82 (area_items dat)" and "area_ending dat = EndAt t"
  shows "stripAgentInfo out = Some dat \<and> length out = length dat + 8 \<and> length out \<le> dhcpMaxPktSize"
proof -
  have "out \<noteq> dat"
    using area_of_insert(2) [OF assms] by auto
  then show ?thesis
    using strip_insert_roundtrip [OF assms] insert_length [OF assms(1,2)] by simp
qed

lemma strip_inverts_insert_witness:
  "stripAgentInfo (sample_header 1 @ [53, 1, 1] @ agentInfoOption 7 @ [255]) =
     Some (sample_header 1 @ [53, 1, 1, 255])"
proof -
  have "insertAgentInfo (sample_header 1 @ [53, 1, 1, 255]) 7 =
      Some (sample_header 1 @ [53, 1, 1] @ agentInfoOption 7 @ [255], True)"
    by (simp add: insertAgentInfo_eq encode_agent_item)
  from strip_inverts_insert [OF _ this, of "[]"] show ?thesis
    by simp
qed

text \<open>Stripping removes every option 82 of the main area and nothing else: the header, the other
  options and pads and their order, and whatever follows End are kept. A malformed area comes out
  terminated, one byte longer at most.\<close>
lemma stripAgentInfo_result:
  assumes "240 \<le> length dat"
  shows "\<exists>out. stripAgentInfo dat = Some out \<and> take 240 out = take 240 dat \<and>
    area_items out = filter (\<lambda>i. case i of Pad \<Rightarrow> True | Opt c p \<Rightarrow> c \<noteq> 82) (area_items dat) \<and>
    area_ending out = (case area_ending dat of EndAt t \<Rightarrow> EndAt t | Malformed r \<Rightarrow> EndAt []) \<and>
    length out \<le> length dat + 1"
proof -
  obtain out where "stripAgentInfo dat = Some out"
    using stripAgentInfo_eq [OF assms] by blast
  then show ?thesis
    using strip_items [OF assms, of out]
    by (auto simp: without_def closed_ending_def split: ending.splits)
qed

lemma stripAgentInfo_result_witness:
  "\<exists>out. stripAgentInfo (sample_header 2 @ [82, 1, 0, 53, 1, 5]) = Some out \<and>
    area_items out = [Opt 53 [5]] \<and> area_ending out = EndAt []"
  using stripAgentInfo_result [of "sample_header 2 @ [82, 1, 0, 53, 1, 5]"] by auto

lemma replace_router_found:
  "\<not> carries 3 pre \<Longrightarrow> length p = 4 \<Longrightarrow>
   replace_router gw (pre @ Opt 3 p # post) = Some (pre @ Opt 3 gw # post)"
proof (induction pre)
  case (Cons i pre)
  then show ?case by (cases i) auto
qed simp

lemma replace_router_SomeD:
  "replace_router gw its = Some its' \<Longrightarrow>
   \<exists>pre p post. its = pre @ Opt 3 p # post \<and> \<not> carries 3 pre \<and> length p = 4 \<and>
      its' = pre @ Opt 3 gw # post"
proof (induction gw its arbitrary: its' rule: replace_router.induct)
  case (1 gw)
  then show ?case by simp
next
  case (2 gw its)
  then obtain u where "replace_router gw its = Some u" "its' = Pad # u" by auto
  with 2 obtain pre p post where "its = pre @ Opt 3 p # post" "\<not> carries 3 pre" "length p = 4"
    "its' = Pad # pre @ Opt 3 gw # post" by blast
  then show ?case
    by (intro exI [of _ "Pad # pre"] exI [of _ p] exI [of _ post]) simp
next
  case (3 gw c p its)
  show ?case
  proof (cases "c = 3")
    case True
    with 3 show ?thesis
      by (intro exI [of _ "[]"] exI [of _ p] exI [of _ its]) (simp split: if_splits)
  next
    case False
    with 3 obtain u where "replace_router gw its = Some u" "its' = Opt c p # u" by auto
    with 3 False obtain pre q post where "its = pre @ Opt 3 q # post" "\<not> carries 3 pre" "length q = 4"
      "its' = Opt c p # pre @ Opt 3 gw # post" by blast
    with False show ?thesis
      by (intro exI [of _ "Opt c p # pre"] exI [of _ q] exI [of _ post]) simp
  qed
qed

text \<open>Rewriting the gateway never panics and changes the four payload bytes of the first router
  option (3) to the given address, provided that option is 4 bytes long; in every other case the
  packet is returned unchanged. The length, the header and all other options stay the same.\<close>
lemma rewriteGateway_result:
  assumes "240 \<le> length dat" and "Is4 gw"
  shows "\<exists>out changed. rewriteGateway dat gw = Some (out, changed) \<and> length out = length dat \<and>
    take 240 out = take 240 dat \<and> area_ending out = area_ending dat \<and>
    (changed \<longrightarrow> (\<exists>pre p post. area_items dat = pre @ Opt 3 p # post \<and> \<not> carries 3 pre \<and> length p = 4 \<and>
       area_items out = pre @ Opt 3 (AsSlice gw) # post)) \<and>
    (\<not> changed \<longrightarrow> out = dat \<and> (\<forall>pre p post. area_items dat = pre @ Opt 3 p # post \<longrightarrow>
       \<not> carries 3 pre \<longrightarrow> length p \<noteq> 4))"
proof (cases "replace_router (AsSlice gw) (area_items dat)")
  case None
  then have "rewriteGateway dat gw = Some (dat, False)"
    using rewriteGateway_eq [OF assms] by simp
  moreover have "\<forall>pre p post. area_items dat = pre @ Opt 3 p # post \<longrightarrow> \<not> carries 3 pre \<longrightarrow> length p \<noteq> 4"
    using None replace_router_found [of _ _ "AsSlice gw"] by force
  ultimately show ?thesis by blast
next
  case (Some its)
  let ?out = "take 240 dat @ encode_items its @ ending_bytes (area_ending dat)"
  note split = area_split [OF assms(1)]
  have wf: "list_all wf_item its \<and> length (encode_items its) = length (encode_items (area_items dat))"
    by (rule replace_router_wf [OF Some length_AsSlice_Is4 [OF assms(2)] split(2)])
  have out: "rewriteGateway dat gw = Some (?out, True)"
    using rewriteGateway_eq [OF assms] Some by simp
  have len: "length ?out = length dat"
    using arg_cong [OF split(1), of length] wf by simp
  have hdr: "take 240 ?out = take 240 dat"
    using assms(1) by simp
  have area: "area_items ?out = its" "area_ending ?out = area_ending dat"
    using area_of_parts [OF _ conjunct1 [OF wf] split(3)] assms(1) by simp_all
  obtain pre p post where "area_items dat = pre @ Opt 3 p # post \<and> \<not> carries 3 pre \<and> length p = 4 \<and>
      its = pre @ Opt 3 (AsSlice gw) # post"
    using Some replace_router_SomeD by blast
  then have "\<exists>pre p post. area_items dat = pre @ Opt 3 p # post \<and> \<not> carries 3 pre \<and> length p = 4 \<and>
      area_items ?out = pre @ Opt 3 (AsSlice gw) # post"
    unfolding area(1) by blast
  with out len hdr area(2) show ?thesis
    by (intro exI [of _ ?out] exI [of _ True]) simp
qed

lemma rewriteGateway_result_witness:
  "\<exists>out changed. rewriteGateway (sample_header 2 @ [3, 4, 10, 0, 0, 1, 255]) (Addr4 192 168 1 1) = Some (out, changed) \<and>
    length out = 247 \<and> take 240 out = sample_header 2"
  using rewriteGateway_result [of "sample_header 2 @ [3, 4, 10, 0, 0, 1, 255]" "Addr4 192 168 1 1"] by auto

text \<open>The circuit-id round trip: from the relay agent information the relay builds for a slave's
  ifindex (any signed 32-bit number), and also when other sub-options stand before and after the
  circuit-id, the ifindex is read back.\<close>
lemma circuitID_roundtrip:
  assumes "- (2 ^ 31) \<le> i" and "i < 2 ^ 31"
    and "\<forall>(sub, p) \<in> set subs. length p < 256 \<and> \<not> (sub = agentSubOptCircuitID \<and> length p = 4)"
  shows "parseCircuitID (concat (map (\<lambda>(sub, p). sub # of_nat (length p) # p) subs) @
    drop 2 (agentInfoOption i) @ rest) = Some (i, True)"
proof -
  have "list_all other_sub subs"
    using assms(3) by (auto simp: list_all_iff other_sub_def)
  from parseCircuitID_encoded [OF this, of "word_of_int i" rest] show ?thesis
    using sint_word_of_int_32 [OF assms(1,2)] by (simp add: agentInfoOption_def encode_sub_def)
qed

lemma circuitID_roundtrip_witness:
  "parseCircuitID ([2, 1, 9] @ drop 2 (agentInfoOption (- 5)) @ [7]) = Some (- 5, True)"
  using circuitID_roundtrip [of "- 5" "[(2, [9])]" "[7]"] by simp

end
