(* ===== verification/Dhcp_Routing.thy ===== *)
theory Dhcp_Routing
  imports Dhcp_Relay Codec_Properties
begin

text \<open>
  What the relay does with a request and with a reply, as equations and effects: the bytes of the
  relayed request and the masters it goes out of, the payload of a relayed reply, the calls an
  acknowledged client causes and their order, the removal of a client, and the choice of the
  slave a reply returns to.
\<close>


lemma replace_router_carries:
  "replace_router gw its = Some its' \<Longrightarrow> \<not> carries 82 its \<Longrightarrow> \<not> carries 82 its'"
  by (induction gw its arbitrary: its' rule: replace_router.induct) (auto split: if_splits)

section \<open>Requests\<close>

lemma put4:
  assumes "28 \<le> length xs" and "length src = 4"
  shows "put xs 24 28 src = Some (take 24 xs @ src @ drop 28 xs)"
  using assms by (simp add: put_def)

lemma nth_put4:
  assumes "28 \<le> length xs" and "length src = 4" and "i \<notin> {24, 25, 26, 27}"
  shows "(take 24 xs @ src @ drop 28 xs) ! i = xs ! i"
proof -
  have "i < 24 \<or> 28 \<le> i" using assms(3) by auto
  then show ?thesis
    using assms(1,2) by (auto simp: nth_append)
qed

text \<open>C21: The copy of a request sent upstream differs from the client's packet in three fields only:
  the hop count goes up by one (without wrapping, for a request below the limit), the broadcast flag
  is set, and a zero giaddr becomes the master's address while a giaddr set by another relay is kept.
  No other byte changes.\<close>
theorem stampRequest_bytes:
  assumes "240 \<le> length dat" and "Is4 giaddr" and "dat ! 3 < dhcpMaxHops"
  shows "\<exists>out. stampRequest dat giaddr = Some out \<and> length out = length dat \<and>
    unat (out ! 3) = unat (dat ! 3) + 1 \<and> out ! 10 = dat ! 10 OR 0x80 \<and>
    take 4 (drop 24 out) = (if take 4 (drop 24 dat) = [0, 0, 0, 0] then AsSlice giaddr
                            else take 4 (drop 24 dat)) \<and>
    (\<forall>i. i \<notin> {3, 10, 24, 25, 26, 27} \<longrightarrow> out ! i = dat ! i)"
proof -
  define d1 where "d1 = dat[3 := dat ! 3 + 1]"
  define d2 where "d2 = (if take 4 (drop 24 dat) = [0, 0, 0, 0]
    then take 24 d1 @ AsSlice giaddr @ drop 28 d1 else d1)"
  define out where "out = d2[10 := d2 ! 10 OR 0x80]"
  have gi: "length (AsSlice giaddr) = 4"
    using assms(2) by (rule length_AsSlice_Is4)
  have l1: "length d1 = length dat" and g1: "take 4 (drop 24 d1) = take 4 (drop 24 dat)"
    by (simp_all add: d1_def)
  have l2: "length d2 = length dat"
    using assms(1) l1 gi by (simp add: d2_def)
  have "stampRequest dat giaddr = Some out"
    using assms(1) l1 l2 g1 gi by (simp add: stampRequest_def d1_def [symmetric] put4 d2_def out_def)
  moreover have n2: "d2 ! i = d1 ! i" if "i \<notin> {24, 25, 26, 27}" for i
    using nth_put4 [of d1 "AsSlice giaddr" i] that assms(1) l1 gi by (simp add: d2_def)
  moreover have "out ! 3 = dat ! 3 + 1" "out ! 10 = dat ! 10 OR 0x80"
    using assms(1) l1 l2 n2 [of 3] n2 [of 10] by (simp_all add: out_def d1_def)
  moreover have "unat (dat ! 3 + 1) = unat (dat ! 3) + 1"
  proof -
    have "unat (dat ! 3) < 16"
      using assms(3) by (simp add: word_less_nat_alt)
    then show ?thesis by (simp add: unat_word_ariths)
  qed
  moreover have "take 4 (drop 24 out) = (if take 4 (drop 24 dat) = [0, 0, 0, 0] then AsSlice giaddr
      else take 4 (drop 24 dat))"
    using assms(1) l1 gi g1 by (simp add: out_def d2_def)
  moreover have "out ! i = dat ! i" if "i \<notin> {3, 10, 24, 25, 26, 27}" for i
    using n2 [of i] that by (simp add: out_def d1_def)
  ultimately show ?thesis
    using l2 by (auto simp: out_def)
qed

lemma stampRequest_bytes_witness:
  "\<exists>out. stampRequest (sample_header 1) (Addr4 10 0 0 2) = Some out \<and> length out = 240 \<and>
    unat (out ! 3) = 1 \<and> take 4 (drop 24 out) = [10, 0, 0, 2]"
  using stampRequest_bytes [of "sample_header 1" "Addr4 10 0 0 2"]
  by (auto simp: sample_header_def)

definition upstream :: "state \<Rightarrow> iref \<Rightarrow> bool" where
  \<comment> \<open>the masters a request goes out of\<close>
  "upstream s c \<longleftrightarrow> Master (heap s c) \<and> DHCPv4 (heap s c) = ModeRelay \<and> dhcp (heap s c) \<noteq> [] \<and>
     snd (relayLinkAddress4 (heap s c))"

definition request_payload :: "bytes \<Rightarrow> int \<Rightarrow> bytes" where
  "request_payload dat i = (case insertAgentInfo dat i of Some (out, True) \<Rightarrow> out | _ \<Rightarrow> dat)"

definition request_datagram :: "bytes \<Rightarrow> state \<Rightarrow> iref \<Rightarrow> call" where
  "request_datagram payload s c = Sendto (ds_fd (hd (dhcp (heap s c))))
     (the (stampRequest payload (fst (relayLinkAddress4 (heap s c))))) [255, 255, 255, 255] 67"

lemma relayToMaster_eq:
  assumes "240 \<le> length dat" and "have82 \<longrightarrow> 240 \<le> length out82"
  shows "relayToMaster E dat out82 have82 c s = Some
    (if upstream s c then issue (request_datagram (if have82 then out82 else dat) s c) s else s)"
proof -
  obtain giaddr ok where g: "relayLinkAddress4 (heap s c) = (giaddr, ok)" by fastforce
  obtain out where "stampRequest (if have82 then out82 else dat) giaddr = Some out"
    using stampRequest_total assms by (metis (full_types))
  with g show ?thesis
    by (cases "dhcp (heap s c)")
      (auto simp: relayToMaster_def upstream_def request_datagram_def sendDHCPv4_eq Broadcast_def)
qed

lemma relay_masters_eq:
  assumes "240 \<le> length dat" and "have82 \<longrightarrow> 240 \<le> length out82"
  shows "fold_opt (relayToMaster E dat out82 have82) cs s = Some
    (s\<lparr>trace := trace s @
       map (request_datagram (if have82 then out82 else dat) s) (filter (upstream s) cs)\<rparr>)"
proof (induction cs arbitrary: s)
  case Nil
  then show ?case by simp
next
  case (Cons c cs)
  let ?p = "if have82 then out82 else dat"
  have same: "upstream (s\<lparr>trace := x\<rparr>) = upstream s"
    "request_datagram p (s\<lparr>trace := x\<rparr>) = request_datagram p s" for x p
    by (auto simp: upstream_def request_datagram_def fun_eq_iff)
  show ?case
    using Cons relayToMaster_eq [OF assms, of E c s] by (simp add: same issue_def)
qed

definition gave_up :: "env \<Rightarrow> bytes \<Rightarrow> dhcpOption list \<Rightarrow> iref \<Rightarrow> state \<Rightarrow> state" where
  \<comment> \<open>the state after a RELEASE or DECLINE was acted on\<close>
  "gave_up E dat opts r s =
     (let mt = fst (dhcpOptionByte opts 53);
          ci = Addr4 (dat ! 12) (dat ! 13) (dat ! 14) (dat ! 15)
      in if mt = 7 then (if ci \<noteq> Addr4 0 0 0 0 then unmirrorClient E ci r s else s)
         else if mt = 4 then fold (declineOption E r) opts s
         else s)"

lemma releaseClient_eq:
  assumes "240 \<le> length dat"
  shows "releaseClient E dat r s = Some
    (if Addr4 (dat ! 12) (dat ! 13) (dat ! 14) (dat ! 15) \<noteq> Addr4 0 0 0 0
     then unmirrorClient E (Addr4 (dat ! 12) (dat ! 13) (dat ! 14) (dat ! 15)) r s else s)"
  using assms by (simp add: releaseClient_def AddrFromSlice_4 IsUnspecified_def)

interpretation gave_up: mirror_op "gave_up E dat opts r" P for E dat opts r P
proof
  show "mirror_step P s (gave_up E dat opts r s)" for s
    by (auto simp: gave_up_def Let_def mirror_step_refl unmirrorClient.only_mirror
        intro: declineOptions_step)
qed

lemma relayClientRequest_eq:
  assumes len: "240 \<le> length dat" and opts: "parseDHCPOptions dat = Some opts"
  shows "relayClientRequest E dat r s = Some
    (if dhcpMaxHops \<le> dat ! 3 then s
     else let u = gave_up E dat opts r s;
              p = request_payload dat (Ifindex (heap s r))
          in u\<lparr>trace := trace u @ map (request_datagram p s) (filter (upstream s) (iface_refs s))\<rparr>)"
proof (cases "dhcpMaxHops \<le> dat ! 3")
  case True
  then show ?thesis
    using len by (simp add: relayClientRequest_def)
next
  case False
  let ?u = "gave_up E dat opts r s"
  obtain out82 have82 where ins: "insertAgentInfo dat (Ifindex (heap s r)) = Some (out82, have82)"
    and l82: "have82 \<longrightarrow> 240 \<le> length out82"
    using insertAgentInfo_total [OF len] by blast
  have "relayClientRequest E dat r s =
      fold_opt (relayToMaster E dat out82 have82) (iface_refs ?u) ?u"
    using False len opts ins releaseClient_eq [OF len, of E r s]
      mirror_step_frame(1) [OF declineOptions_step [of _ s E r opts]]
    by (simp add: relayClientRequest_def gave_up_def Let_def)
  also have "\<dots> = Some (?u\<lparr>trace := trace ?u @
      map (request_datagram (request_payload dat (Ifindex (heap s r))) s)
        (filter (upstream s) (iface_refs s))\<rparr>)"
  proof -
    have "(if have82 then out82 else dat) = request_payload dat (Ifindex (heap s r))"
      by (simp add: request_payload_def ins)
    moreover have "upstream ?u = upstream s" "request_datagram p ?u = request_datagram p s" for p
      by (auto simp: upstream_def request_datagram_def fun_eq_iff)
    ultimately show ?thesis
      using relay_masters_eq [OF len l82, of E "iface_refs ?u" ?u] by simp
  qed
  finally show ?thesis
    using False by (simp add: Let_def)
qed

text \<open>C4: A client request on a slave: at 16 hops or more nothing happens; otherwise a RELEASE or DECLINE
  is acted on first, and then the packet, with option 82 inserted where possible, goes out of every
  relaying master that has a socket and a usable address, once each, in the order of the registry, as
  a broadcast to port 67. Nothing else is sent and nothing else changes.\<close>
theorem relayClientRequest_effect:
  assumes len: "240 \<le> length dat" and opts: "parseDHCPOptions dat = Some opts"
  shows "relayClientRequest E dat r s = Some
    (if dhcpMaxHops \<le> dat ! 3 then s
     else let u = gave_up E dat opts r s;
              p = request_payload dat (Ifindex (heap s r))
          in u\<lparr>trace := trace u @ map (request_datagram p s) (filter (upstream s) (iface_refs s))\<rparr>)"
  by (rule relayClientRequest_eq [OF assms])

definition sample_discover :: bytes where
  "sample_discover = sample_header 1 @ [53, 1, 1, 255]"

lemma sample_discover_options:
  "parseDHCPOptions sample_discover = Some [\<lparr>opt_code = 53, opt_data = [1]\<rparr>]"
  by (simp add: parseDHCPOptions_def parseOptionArea_eq sample_discover_def options_of_def)

lemma relayClientRequest_effect_witness:
  "relayClientRequest quiet_env sample_discover 0 sample_state =
     Some (sample_state\<lparr>trace := [request_datagram (request_payload sample_discover 2) sample_state 1]\<rparr>)"
  using relayClientRequest_effect [OF _ sample_discover_options, of quiet_env 0 sample_state]
  by (simp add: gave_up_def upstream_def sample_discover_def sample_header_def)

section \<open>Replies\<close>

lemma replyPayload_area:
  assumes "240 \<le> length dat"
  shows "\<exists>p. replyPayload dat i = Some p \<and> take 240 p = take 240 dat \<and>
    length p \<le> length dat + 1 \<and> \<not> carries 82 (area_items p) \<and>
    area_ending p = closed_ending (area_ending dat) \<and>
    area_items p =
      (case relayLinkAddress4 i of (gw, ok) \<Rightarrow>
        if \<not> ok then without 82 (area_items dat)
        else (case replace_router (AsSlice gw) (without 82 (area_items dat)) of
                None \<Rightarrow> without 82 (area_items dat) | Some its \<Rightarrow> its))"
proof -
  obtain q where q: "stripAgentInfo dat = Some q"
    using stripAgentInfo_eq [OF assms] by blast
  note strip = strip_items [OF assms q]
  have lq: "240 \<le> length q"
    using arg_cong [OF strip(1), of length] assms by simp
  obtain gw ok where g: "relayLinkAddress4 i = (gw, ok)" by fastforce
  let ?w = "without 82 (area_items dat)"
  show ?thesis
  proof (cases "ok \<and> replace_router (AsSlice gw) ?w \<noteq> None")
    case False
    then have "replyPayload dat i = Some q"
      using q g strip lq relayLinkAddress4_Is4 [of i gw]
      by (auto simp: replyPayload_def rewriteGateway_eq)
    with False strip g show ?thesis
      by (auto split: option.splits)
  next
    case True
    then obtain its where its: "replace_router (AsSlice gw) ?w = Some its" by blast
    have is4: "Is4 gw"
      using True g relayLinkAddress4_Is4 [of i gw] by simp
    let ?p = "take 240 q @ encode_items its @ ending_bytes (area_ending q)"
    have p: "replyPayload dat i = Some ?p"
      using True q g strip lq is4 its by (simp add: replyPayload_def rewriteGateway_eq)
    have wf: "list_all wf_item its" "length (encode_items its) = length (encode_items ?w)"
      using replace_router_wf [OF its] length_AsSlice_Is4 [OF is4]
        without_wf [OF area_split(2) [OF assms]] by simp_all
    have "stops (area_ending q)"
      by (rule area_split(3) [OF lq])
    then have "area_items ?p = its" "area_ending ?p = area_ending q"
      using area_of_parts [of "take 240 q" its "area_ending q"] lq wf by simp_all
    moreover have "length ?p = length q"
      using arg_cong [OF area_split(1) [OF lq], of length] lq wf(2) strip(2) by simp
    moreover have "\<not> carries 82 its"
      using its not_carries_without [of 82 "area_items dat"] by (rule replace_router_carries)
    ultimately show ?thesis
      using True p strip its g lq assms by simp
  qed
qed

text \<open>C7: What a client receives of a server reply: the header unchanged, no option 82, the other
  options in order with the first 4-byte router option replaced by the target interface's own usable
  address (if it has one), and a terminated options area.\<close>
theorem replyPayload_items:
  assumes "240 \<le> length dat"
  shows "\<exists>p. replyPayload dat i = Some p \<and> take 240 p = take 240 dat \<and>
    length p \<le> length dat + 1 \<and> \<not> carries 82 (area_items p) \<and>
    area_ending p = closed_ending (area_ending dat) \<and>
    area_items p =
      (case relayLinkAddress4 i of (gw, ok) \<Rightarrow>
        if \<not> ok then without 82 (area_items dat)
        else (case replace_router (AsSlice gw) (without 82 (area_items dat)) of
                None \<Rightarrow> without 82 (area_items dat) | Some its \<Rightarrow> its))"
  by (rule replyPayload_area [OF assms])

lemma replyPayload_items_witness:
  "\<exists>p. replyPayload (sample_header 2 @ [53, 1, 5, 82, 0, 3, 4, 10, 0, 0, 1, 255]) sample_lan = Some p \<and>
    take 240 p = sample_header 2 \<and> area_items p = [Opt 53 [5], Opt 3 [192, 168, 1, 1]]"
  using replyPayload_items [of "sample_header 2 @ [53, 1, 5, 82, 0, 3, 4, 10, 0, 0, 1, 255]" sample_lan]
  by auto

definition reply_datagram :: "bytes \<Rightarrow> bytes \<Rightarrow> state \<Rightarrow> iref \<Rightarrow> call" where
  "reply_datagram dat dest s r =
     Sendto (ds_fd (hd (dhcp (heap s r)))) (the (replyPayload dat (heap s r))) dest 68"

definition learned :: "env \<Rightarrow> bytes \<Rightarrow> Addr \<Rightarrow> iref \<Rightarrow> state \<Rightarrow> state" where
  \<comment> \<open>the state once an acknowledged client is mirrored, before its ARP entry is seeded\<close>
  "learned E dat a r s = (if key_of s a r \<in> set (mirroredNeighs s) then s
     else arpMirrorAddr E a r True (add_mirrored (key_of s a r) s))"

lemma relayToTarget_eq:
  assumes "240 \<le> length dat" and "hasYi \<longrightarrow> Is4 yi"
  shows "relayToTarget E dat mt yi hasYi flags r s = Some
    (let ack = (mt = 5 \<and> hasYi);
         u = (if ack then seedNeighbor4 E yi (take 6 (drop 28 dat)) (Ifindex (heap s r))
                            (learned E dat yi r s) else s);
         dest = (if ack \<and> flags AND 0x8000 = 0 then AsSlice yi else [255, 255, 255, 255])
     in if dhcp (heap s r) = [] then u else issue (reply_datagram dat dest s r) u)"
proof -
  obtain p where p: "replyPayload dat (heap s r) = Some p"
    using replyPayload_total [OF assms(1)] by blast
  have h: "heap (add_mirrored k s) = heap s" for k
    by (simp add: add_mirrored_def)
  show ?thesis
    using p assms
    by (cases "dhcp (heap s r)")
      (auto simp: relayToTarget_def learnClient_def learned_def Let_def sendDHCPv4_eq h
        reply_datagram_def Broadcast_def)
qed



text \<open>A mirrored client that gives its address up (RELEASE, DECLINE) is removed completely: from the
  table, from the proxy-ARP entries of the masters, its host route from its interface, and last its
  ARP entry. The other clients of the table stay.\<close>
lemma unmirrorClient_effect:
  assumes "key_of s a r \<in> set (mirroredNeighs s)"
  shows "set (mirroredNeighs (unmirrorClient E a r s)) = set (mirroredNeighs s) - {key_of s a r} \<and>
    proxies (trace (unmirrorClient E a r s)) =
      proxies (trace s) - mirror_entries s r a (iface_refs s) \<and>
    routes (trace (unmirrorClient E a r s)) =
      (if LearnRoutes (heap s r) \<and> \<not> IsLinkLocalUnicast a
       then routes (trace s) - {(hostNet a, Ifindex (heap s r))} else routes (trace s)) \<and>
    (\<exists>cs. trace (unmirrorClient E a r s) =
       trace s @ cs @ [NeighDel (neigh4 a (Ifindex (heap s r)) 0 0 [])])"
proof -
  let ?d = "delete_mirrored (key_of s a r) s"
  let ?l = "arpMirrorAddr E a r False ?d"
  have d: "heap ?d = heap s" "iface_refs ?d = iface_refs s" "trace ?d = trace s"
    "set (mirroredNeighs ?d) = set (mirroredNeighs s) - {key_of s a r}"
    by (simp_all add: delete_mirrored_def iface_refs_def)
  have u: "unmirrorClient E a r s = issue (NeighDel (neigh4 a (Ifindex (heap s r)) 0 0 [])) ?l"
    using assms by (simp add: unmirrorClient_def deleteNeigh4_def)
  obtain cs where "trace ?l = trace s @ cs"
    using arpMirrorAddr.trace_grows [of E a r False ?d] d by auto
  moreover have "mirror_entries ?d r a = mirror_entries s r a"
    using mirror_entries_heap [of ?d s] d by simp
  ultimately show ?thesis
    using arpMirrorAddr_requests [of E a r False ?d] d by (auto simp: u neigh4_def)
qed

lemma unmirrorClient_effect_witness:
  "set (mirroredNeighs (unmirrorClient quiet_env sample_client 0
     (sample_state\<lparr>mirroredNeighs := [\<lparr>mk_addr = sample_client, mk_ifindex = 2\<rparr>]\<rparr>))) = {}"
  using unmirrorClient_effect [of sample_client
      "sample_state\<lparr>mirroredNeighs := [\<lparr>mk_addr = sample_client, mk_ifindex = 2\<rparr>]\<rparr>" 0 quiet_env]
  by simp

lemma pickSlave_other:
  "opt_code opt \<noteq> 82 \<Longrightarrow> pickSlave s opt sel = Some sel"
  by (simp add: pickSlave_def)

lemma pickSlave_ours:
  assumes "opt_code opt = 82" and "opt_data opt = [1, 4] @ le_PutUint32 (word_of_int i)"
    and "- (2 ^ 31) \<le> i" and "i < 2 ^ 31"
    and "ifaceByIndex s i = Some r" and "\<not> Master (heap s r)"
  shows "pickSlave s opt sel = Some (Some r)"
  using assms parseCircuitID_encoded [of "[]" "word_of_int i" "[]"]
  by (simp add: pickSlave_def sint_word_of_int_32)

lemma pick_ours:
  assumes "\<forall>opt \<in> set opts. opt_code opt = 82 \<longrightarrow>
      opt_data opt = [1, 4] @ le_PutUint32 (word_of_int i)"
    and "- (2 ^ 31) \<le> i" and "i < 2 ^ 31"
    and "ifaceByIndex s i = Some r" and "\<not> Master (heap s r)"
  shows "fold_opt (pickSlave s) opts sel =
    Some (if \<exists>opt \<in> set opts. opt_code opt = 82 then Some r else sel)"
  using assms(1)
proof (induction opts arbitrary: sel)
  case Nil
  then show ?case by simp
next
  case (Cons opt opts)
  then show ?case
    using pickSlave_other [of opt s sel] pickSlave_ours [OF _ _ assms(2-5), of opt sel]
    by (cases "opt_code opt = 82") auto
qed


text \<open>A reply returns to the slave its request came from: if the relay inserted option 82 into a
  request received on slave \<open>r\<close>, and the server echoes every option 82 it sends back from what the relay
  sent, the reply is relayed to \<open>r\<close> and to no other interface.\<close>
lemma reply_returns_to_slave:
  assumes "240 \<le> length dat" and "insertAgentInfo dat (Ifindex (heap s r)) = Some (out, True)"
    and "\<not> carries 82 (area_items dat)" and "area_ending dat = EndAt t"
    and "- (2 ^ 31) \<le> Ifindex (heap s r)" and "Ifindex (heap s r) < 2 ^ 31"
    and "ifaceByIndex s (Ifindex (heap s r)) = Some r" and "\<not> Master (heap s r)"
    and "parseDHCPOptions reply = Some opts" and "\<exists>opt \<in> set opts. opt_code opt = 82"
    and "\<forall>opt \<in> set opts. opt_code opt = 82 \<longrightarrow> Opt 82 (opt_data opt) \<in> set (area_items out)"
  shows "\<exists>sel. fold_opt (pickSlave s) opts None = Some sel \<and> replyTargets s sel = [r]"
proof -
  have "area_items out = area_items dat @ [agent_item (Ifindex (heap s r))]"
    by (rule area_of_insert(2) [OF assms(1-4)])
  then have "opt_data opt = [1, 4] @ le_PutUint32 (word_of_int (Ifindex (heap s r)))"
    if "opt \<in> set opts" "opt_code opt = 82" for opt
    using assms(3,11) that by (auto simp: agent_item_def carries_def)
  then have "fold_opt (pickSlave s) opts None = Some (Some r)"
    using pick_ours [of opts "Ifindex (heap s r)" s r None] assms(5-8,10) by simp
  then show ?thesis
    by (simp add: replyTargets_def)
qed

lemma sample_insert:
  "insertAgentInfo sample_discover 2 =
     Some (sample_header 1 @ [53, 1, 1] @ agentInfoOption 2 @ [255], True)"
  by (simp add: insertAgentInfo_eq sample_discover_def encode_agent_item)

lemma reply_returns_to_slave_witness:
  "\<exists>sel. fold_opt (pickSlave sample_state)
      [\<lparr>opt_code = 53, opt_data = [5]\<rparr>, \<lparr>opt_code = 82, opt_data = [1, 4, 2, 0, 0, 0]\<rparr>] None = Some sel \<and>
    replyTargets sample_state sel = [0]"
proof (rule reply_returns_to_slave [where dat = sample_discover and t = "[]" and
      reply = "sample_header 2 @ [53, 1, 5, 82, 6, 1, 4, 2, 0, 0, 0, 255]" and
      out = "sample_header 1 @ [53, 1, 1] @ agentInfoOption 2 @ [255]"])
  show "parseDHCPOptions (sample_header 2 @ [53, 1, 5, 82, 6, 1, 4, 2, 0, 0, 0, 255]) =
      Some [\<lparr>opt_code = 53, opt_data = [5]\<rparr>, \<lparr>opt_code = 82, opt_data = [1, 4, 2, 0, 0, 0]\<rparr>]"
    by (simp add: parseDHCPOptions_def parseOptionArea_eq options_of_def)
  show "\<forall>opt \<in> set [\<lparr>opt_code = 53, opt_data = [5]\<rparr>, \<lparr>opt_code = 82, opt_data = [1, 4, 2, 0, 0, 0]\<rparr>].
      opt_code opt = 82 \<longrightarrow>
      Opt 82 (opt_data opt) \<in> set (area_items (sample_header 1 @ [53, 1, 1] @ agentInfoOption 2 @ [255]))"
    by (simp add: agentInfoOption_def le_PutUint32_def)
  show "insertAgentInfo sample_discover (Ifindex (heap sample_state 0)) =
      Some (sample_header 1 @ [53, 1, 1] @ agentInfoOption 2 @ [255], True)"
    using sample_insert by simp
qed (simp_all add: sample_discover_def carries_def)

section \<open>What is relayed, and what is not\<close>

text \<open>C25: Only packets the relay is meant for change anything or are sent on: the socket is still open on
  its interface, the interface relays, the packet is an Ethernet DHCP packet of at least 240 bytes,
  and it is a request below the hop limit on a slave or a reply on a master. Requests seen on a master
  and replies seen on a slave have no effect, so nothing is relayed back where it came from.\<close>
theorem handleDHCPv4_direction:
  assumes "handleDHCPv4 E ds src dat s \<noteq> Some s"
  shows "accepted ds dat s \<and>
    (dat ! 0 = bootpRequest \<and> \<not> Master (heap s (ds_iface ds)) \<and> dat ! 3 < dhcpMaxHops \<or>
     dat ! 0 = bootpReply \<and> Master (heap s (ds_iface ds)))"
proof -
  have "relayClientRequest E dat (ds_iface ds) s = Some s"
    if "accepted ds dat s" "\<not> dat ! 3 < 16"
    using that by (simp add: relayClientRequest_def accepted_def not_less)
  with assms show ?thesis
    by (auto simp: handleDHCPv4_eq split: if_splits)
qed

lemma handleDHCPv4_direction_witness:
  "accepted \<lparr>ds_id = 0, ds_fd = 5, ds_iface = 0\<rparr> sample_discover sample_state"
proof -
  let ?ds = "\<lparr>ds_id = 0, ds_fd = 5, ds_iface = 0\<rparr>"
  have "accepted ?ds sample_discover sample_state"
    by (simp add: accepted_def ifaceHasDHCPSock_def sample_discover_def sample_header_def)
  then have "handleDHCPv4 quiet_env ?ds ZeroAddr sample_discover sample_state =
      relayClientRequest quiet_env sample_discover 0 sample_state"
    by (simp add: handleDHCPv4_eq sample_discover_def sample_header_def)
  also have "\<dots> \<noteq> Some sample_state"
    using relayClientRequest_eq [OF _ sample_discover_options, of quiet_env 0 sample_state]
    by (auto simp: gave_up_def upstream_def sample_discover_def sample_header_def
        dest!: arg_cong [of _ _ trace])
  finally show ?thesis
    using handleDHCPv4_direction by blast
qed



text \<open>A RELEASE relayed for a client withdraws it: after the packet is handled the client whose
  address stands in \<open>ciaddr\<close> is no longer in the table for that interface, and every other client
  still is.\<close>
lemma released_client_forgotten:
  assumes "240 \<le> length dat" and "parseDHCPOptions dat = Some opts"
    and "fst (dhcpOptionByte opts dhcpOptMsgType) = dhcpMsgRelease" and "dat ! 3 < dhcpMaxHops"
    and "a = Addr4 (dat ! 12) (dat ! 13) (dat ! 14) (dat ! 15)" and "\<not> IsUnspecified a"
  shows "\<exists>t. relayClientRequest E dat r s = Some t \<and>
    set (mirroredNeighs t) = set (mirroredNeighs s) - {key_of s a r}"
proof -
  have "set (mirroredNeighs (unmirrorClient E a r s)) = set (mirroredNeighs s) - {key_of s a r}"
    by (simp add: unmirrorClient_def delete_mirrored_def)
  moreover have "a \<noteq> Addr4 0 0 0 0" "\<not> dhcpMaxHops \<le> dat ! 3"
    using assms(4-6) by (auto simp: IsUnspecified_def)
  ultimately show ?thesis
    using relayClientRequest_eq [OF assms(1,2), of E r s] assms(3,5)
    by (auto simp: gave_up_def Let_def)
qed

definition sample_release :: bytes where
  "sample_release = [1, 1, 6, 0] @ replicate 8 0 @ [192, 168, 1, 50] @ replicate 220 0 @ [99, 130, 83, 99] @ [53, 1, 7, 255]"

lemma released_client_forgotten_witness:
  "\<exists>t. relayClientRequest quiet_env sample_release 0
      (sample_state\<lparr>mirroredNeighs := [\<lparr>mk_addr = sample_client, mk_ifindex = 2\<rparr>]\<rparr>) = Some t \<and>
    mirroredNeighs t = []"
proof -
  have opts: "parseDHCPOptions sample_release = Some [\<lparr>opt_code = 53, opt_data = [7]\<rparr>]"
    by (simp add: parseDHCPOptions_def parseOptionArea_eq sample_release_def options_of_def)
  show ?thesis
    using released_client_forgotten [OF _ opts, of sample_client quiet_env 0
        "sample_state\<lparr>mirroredNeighs := [\<lparr>mk_addr = sample_client, mk_ifindex = 2\<rparr>]\<rparr>"]
    by (simp add: sample_release_def sample_client_def IsUnspecified_def nth_append)
qed

text \<open>C35: A circuit-id the relay did not write is followed too: a request that already carries option 82
  is relayed without a mark of its slave, and if the echoed circuit-id of the downstream relay reads as
  the index of one of our slaves, the reply goes to that slave only.\<close>
theorem foreign_circuit_id_followed:
  assumes "240 \<le> length dat" and "carries 82 (area_items dat)"
    and "\<exists>opt \<in> set opts. opt_code opt = 82"
    and "\<forall>opt \<in> set opts. opt_code opt = 82 \<longrightarrow> opt_data opt = [1, 4] @ le_PutUint32 (word_of_int j)"
    and "- (2 ^ 31) \<le> j" and "j < 2 ^ 31" and "ifaceByIndex s j = Some r'" and "\<not> Master (heap s r')"
  shows "insertAgentInfo dat i = Some (dat, True) \<and>
    (\<exists>sel. fold_opt (pickSlave s) opts None = Some sel \<and> replyTargets s sel = [r'])"
  using insertAgentInfo_eq [OF assms(1), of i] assms(2,3) pick_ours [OF assms(4-8), of None]
  by (simp add: replyTargets_def)

lemma foreign_circuit_id_followed_witness:
  "insertAgentInfo (sample_header 1 @ [82, 6, 1, 4, 2, 0, 0, 0, 255]) 9 =
     Some (sample_header 1 @ [82, 6, 1, 4, 2, 0, 0, 0, 255], True)"
  using foreign_circuit_id_followed [of "sample_header 1 @ [82, 6, 1, 4, 2, 0, 0, 0, 255]"
      "[\<lparr>opt_code = 82, opt_data = [1, 4, 2, 0, 0, 0]\<rparr>]" 2 sample_state 0 9]
  by (simp add: le_PutUint32_def)

text \<open>A reply without option 82 goes to every relaying slave, and so does what an ACK sets up.\<close>

lemma no_circuit_id: "\<forall>opt \<in> set opts. opt_code opt \<noteq> 82 \<Longrightarrow> fold_opt (pickSlave s) opts sel = Some sel"
  by (induction opts) (simp_all add: pickSlave_other)

lemma ack_targets:
  assumes "240 \<le> length dat" and "Is4 yi"
  shows "\<exists>t. fold_opt (relayToTarget E dat 5 yi True flags) rs s = Some t \<and> heap t = heap s \<and>
    set (mirroredNeighs t) = set (mirroredNeighs s) \<union> (\<lambda>r. key_of s yi r) ` set rs \<and>
    (\<exists>cs. trace t = trace s @ cs \<and> (\<forall>r \<in> set rs. dhcp (heap s r) \<noteq> [] \<longrightarrow>
       reply_datagram dat (if flags AND 0x8000 = 0 then AsSlice yi else [255, 255, 255, 255]) s r \<in> set cs))"
proof (induction rs arbitrary: s)
  case Nil
  then show ?case by simp
next
  case (Cons r rs)
  let ?dest = "if flags AND 0x8000 = 0 then AsSlice yi else [255, 255, 255, 255 :: byte]"
  let ?u = "seedNeighbor4 E yi (take 6 (drop 28 dat)) (Ifindex (heap s r)) (learned E dat yi r s)"
  let ?v = "if dhcp (heap s r) = [] then ?u else issue (reply_datagram dat ?dest s r) ?u"
  have l: "heap (learned E dat yi r s) = heap s"
    "set (mirroredNeighs (learned E dat yi r s)) = insert (key_of s yi r) (set (mirroredNeighs s))"
    "\<exists>cs. trace (learned E dat yi r s) = trace s @ cs"
    using arpMirrorAddr.trace_grows [of E yi r True "add_mirrored (key_of s yi r) s"]
    by (auto simp: learned_def add_mirrored_def)
  have one: "relayToTarget E dat 5 yi True flags r s = Some ?v"
    using relayToTarget_eq [OF assms(1), of True yi E 5 flags r s] assms(2) by (simp add: Let_def)
  have v: "heap ?v = heap s" "set (mirroredNeighs ?v) = insert (key_of s yi r) (set (mirroredNeighs s))"
    "\<exists>cs. trace ?v = trace s @ cs \<and> (dhcp (heap s r) \<noteq> [] \<longrightarrow> reply_datagram dat ?dest s r \<in> set cs)"
    using l by (auto simp: seedNeighbor4_def)
  have same: "reply_datagram dat d ?v r' = reply_datagram dat d s r'" for d r'
    using v(1) by (simp add: reply_datagram_def)
  obtain t where t: "fold_opt (relayToTarget E dat 5 yi True flags) rs ?v = Some t" "heap t = heap s"
    "set (mirroredNeighs t) = set (mirroredNeighs ?v) \<union> (\<lambda>r. key_of s yi r) ` set rs"
    "\<exists>cs. trace t = trace ?v @ cs \<and> (\<forall>r \<in> set rs. dhcp (heap s r) \<noteq> [] \<longrightarrow>
       reply_datagram dat ?dest s r \<in> set cs)"
    using Cons.IH [of ?v] unfolding same v(1) by blast
  with one v(2,3) show ?case
    by fastforce
qed

text \<open>C28: A DHCPACK that comes back without option 82 is relayed to every relaying slave with a socket, and
  the client is entered in the table for each of them, not only for the one it lives behind.\<close>
theorem fallback_ack_mirrors_everywhere:
  assumes "240 \<le> length dat" and "parseDHCPOptions dat = Some opts"
    and "\<forall>opt \<in> set opts. opt_code opt \<noteq> dhcpOptAgentInfo"
    and "fst (dhcpOptionByte opts dhcpOptMsgType) = dhcpMsgAck" and "assignedAddr dat = Some (yi, True)"
    and "slaves = {r \<in> set (iface_refs s). \<not> Master (heap s r) \<and> DHCPv4 (heap s r) = ModeRelay \<and> dhcp (heap s r) \<noteq> []}"
  shows "\<exists>t dest. relayServerResponse E dat s = Some t \<and>
    set (mirroredNeighs t) = set (mirroredNeighs s) \<union> (\<lambda>r. key_of s yi r) ` slaves \<and>
    (\<forall>r \<in> slaves. \<exists>p. replyPayload dat (heap s r) = Some p \<and>
       Sendto (ds_fd (hd (dhcp (heap s r)))) p dest dhcpv4ClientPort \<in> set (trace t))"
proof -
  let ?flags = "be_Uint16 (dat ! 10) (dat ! 11)"
  let ?dest = "if ?flags AND 0x8000 = 0 then AsSlice yi else [255, 255, 255, 255]"
  have "opts \<noteq> []"
    using assms(4) by auto
  have "fold_opt (pickSlave s) opts None = Some None"
    using no_circuit_id assms(3) by simp
  then have r: "relayServerResponse E dat s =
      fold_opt (relayToTarget E dat 5 yi True ?flags) (replyTargets s None) s"
    using assms(1,2,4,5) \<open>opts \<noteq> []\<close> by (simp add: relayServerResponse_def Let_def)
  have "Is4 yi"
    using assms(1,5) by (auto simp: assignedAddr_def split: prod.splits)
  obtain t cs where t: "relayServerResponse E dat s = Some t"
    "set (mirroredNeighs t) = set (mirroredNeighs s) \<union> (\<lambda>r. key_of s yi r) ` set (replyTargets s None)"
    "trace t = trace s @ cs" and cs: "\<forall>r \<in> set (replyTargets s None). dhcp (heap s r) \<noteq> [] \<longrightarrow>
       reply_datagram dat ?dest s r \<in> set cs"
    using ack_targets [OF assms(1) \<open>Is4 yi\<close>, of E ?flags "replyTargets s None" s] unfolding r by blast
  have slaves: "set (replyTargets s None) = slaves"
    using assms(6) by (auto simp: replyTargets_def)
  have "\<exists>p. replyPayload dat (heap s r) = Some p \<and>
       Sendto (ds_fd (hd (dhcp (heap s r)))) p ?dest dhcpv4ClientPort \<in> set (trace t)" if "r \<in> slaves" for r
  proof -
    obtain p where "replyPayload dat (heap s r) = Some p"
      using replyPayload_total [OF assms(1)] by blast
    moreover have "reply_datagram dat ?dest s r \<in> set cs"
      using cs that slaves assms(6) by simp
    ultimately show ?thesis
      by (auto simp: reply_datagram_def t(3))
  qed
  with t(1,2) show ?thesis
    unfolding slaves by blast
qed

definition sample_ack :: bytes where
  "sample_ack = [2, 1, 6, 0] @ replicate 12 0 @ [192, 168, 1, 50] @ replicate 216 0 @ [99, 130, 83, 99] @ [53, 1, 5, 255]"

lemma fallback_ack_mirrors_everywhere_witness:
  "\<exists>t. relayServerResponse quiet_env sample_ack sample_state = Some t \<and>
    set (mirroredNeighs t) = {\<lparr>mk_addr = sample_client, mk_ifindex = 2\<rparr>}"
proof -
  have opts: "parseDHCPOptions sample_ack = Some [\<lparr>opt_code = 53, opt_data = [5]\<rparr>]"
    by (simp add: parseDHCPOptions_def parseOptionArea_eq sample_ack_def options_of_def)
  have yi: "assignedAddr sample_ack = Some (sample_client, True)"
    by (simp add: assignedAddr_def sample_ack_def sample_client_def IsUnspecified_def IsMulticast_def
        IsLoopback_def IsLinkLocalUnicast_def)
  have "{r \<in> set (iface_refs sample_state). \<not> Master (heap sample_state r) \<and>
      DHCPv4 (heap sample_state r) = ModeRelay \<and> dhcp (heap sample_state r) \<noteq> []} = {0}"
    by auto
  then have slaves: "{0} = {r \<in> set (iface_refs sample_state). \<not> Master (heap sample_state r) \<and>
      DHCPv4 (heap sample_state r) = ModeRelay \<and> dhcp (heap sample_state r) \<noteq> []}"
    by (rule sym)
  have len: "240 \<le> length sample_ack"
    by (simp add: sample_ack_def)
  obtain t where "relayServerResponse quiet_env sample_ack sample_state = Some t"
    "set (mirroredNeighs t) = set (mirroredNeighs sample_state) \<union> (\<lambda>r. key_of sample_state sample_client r) ` {0}"
    using fallback_ack_mirrors_everywhere [OF len opts _ _ yi slaves, of quiet_env] by fastforce
  then show ?thesis
    by simp
qed

lemma options_of_Nil_iff: "options_of its = [] \<longleftrightarrow> set its \<subseteq> {Pad}"
  by (induction its) (auto simp: options_of_def split: item.splits)

lemma parseOptionArea_nil_iff:
  "parseOptionArea area = Some [] \<longleftrightarrow>
   (\<forall>its t. read_area area = (its, EndAt t) \<longrightarrow> set its \<subseteq> {Pad})"
  by (auto simp: parseOptionArea_eq options_of_Nil_iff split: prod.splits ending.splits)

text \<open>A reply whose options area holds no option at all (a plain BOOTP reply: only pads and End) is
  dropped: it is relayed to no client, although its area is well-formed.\<close>
lemma optionless_reply_dropped:
  assumes "240 \<le> length dat" and "set (area_items dat) \<subseteq> {Pad}"
  shows "relayServerResponse E dat s = Some s"
proof -
  have "parseOptionArea (drop 240 dat) = Some []"
    using assms(2) by (auto simp: parseOptionArea_nil_iff)
  with assms(1) show ?thesis
    by (simp add: relayServerResponse_def parseDHCPOptions_def)
qed

lemma optionless_reply_dropped_witness:
  "relayServerResponse quiet_env (sample_header 2 @ [0, 255]) sample_state = Some sample_state"
  by (rule optionless_reply_dropped) simp_all

end
