(* ===== verification/Engine_Loop.thy ===== *)
theory Engine_Loop
  imports Socket_Lifetime Dhcp_Routing "HOL-Library.Multiset"
begin

text \<open>
  The event loop (\<open>internal/relay/engine.go\<close>) and the goroutines that post to it.

  A posted closure is a value of type \<open>event\<close>, with the values it captured. The channel of the
  engine is a list of at most 1024 events; \<open>Post\<close> gives \<open>None\<close> when the sender blocks. One
  iteration of \<open>Run\<close> takes the first event and runs it to its end. The socket readers, the netlink
  reader and the signal handler are the rule \<open>post\<close> of \<open>engine_step\<close>: any of them may post at any
  time. A pending timer may fire at any time (when it fires is not modelled, only that it was asked
  for with a delay). The rule \<open>reorder\<close> gives the maps another iteration order.
\<close>

section \<open>The channel\<close>

locale event_queue =
  fixes post :: "'e \<Rightarrow> 'q \<Rightarrow> 'q option"
    and receive :: "'q \<Rightarrow> ('e \<times> 'q) option"
    and pending :: "'q \<Rightarrow> 'e list"
    and capacity :: nat
  assumes post_room: "length (pending q) < capacity \<Longrightarrow> \<exists>q'. post e q = Some q' \<and> pending q' = pending q @ [e]"
    and post_blocks: "\<not> length (pending q) < capacity \<Longrightarrow> post e q = None"
    and receive_empty: "pending q = [] \<Longrightarrow> receive q = None"
    and receive_first: "pending q = e # es \<Longrightarrow> \<exists>q'. receive q = Some (e, q') \<and> pending q' = es"
begin

lemma post_iff: "post e q = Some q' \<Longrightarrow> length (pending q) < capacity \<and> pending q' = pending q @ [e]"
  using post_room [of q e] post_blocks [of q e] by (cases "length (pending q) < capacity") auto

lemma posts_in_order: "fold_opt post es q = Some q' \<Longrightarrow> pending q' = pending q @ es"
  by (induction es arbitrary: q) (auto split: Option.bind_splits dest: post_iff)

lemma posts_bounded:
  "length (pending q) \<le> capacity \<Longrightarrow> fold_opt post es q = Some q' \<Longrightarrow> length (pending q') \<le> capacity"
proof (induction es arbitrary: q)
  case Nil
  then show ?case by simp
next
  case (Cons e es)
  then obtain q1 where "post e q = Some q1" "fold_opt post es q1 = Some q'"
    by (auto split: Option.bind_splits)
  with Cons.IH [of q1] post_iff [of e q q1] show ?case by simp
qed

lemma posts_room:
  "length (pending q) + length es \<le> capacity \<Longrightarrow> \<exists>q'. fold_opt post es q = Some q'"
proof (induction es arbitrary: q)
  case Nil
  then show ?case by simp
next
  case (Cons e es)
  then obtain q1 where "post e q = Some q1" "pending q1 = pending q @ [e]"
    using post_room [of q e] by auto
  with Cons show ?case by simp
qed

lemma receive_some: "receive q = Some (e, q') \<Longrightarrow> pending q = e # pending q'"
  using receive_empty [of q] receive_first [of q] by (cases "pending q") auto

end

datatype event =
    LinkEvent LinkUpdate
  | AddrEvent AddrUpdate
  | NeighEvent NeighUpdate
  | RouteEvent RouteUpdate
  | DHCPEvent dhcpSock Addr bytes
  | ReloadEvent
  | SweepEvent
  | ReconcileEvent

definition engineBacklog :: nat where [simp]: "engineBacklog = 1024"

definition Post :: "event \<Rightarrow> event list \<Rightarrow> event list option" where
  "Post e q = (if length q < engineBacklog then Some (q @ [e]) else None)"

definition NewEngine :: "event list" where
  \<comment> \<open>an engine with an empty channel\<close>
  [simp]: "NewEngine = []"

definition receive :: "event list \<Rightarrow> (event \<times> event list) option" where
  "receive q = (case q of [] \<Rightarrow> None | e # q' \<Rightarrow> Some (e, q'))"

interpretation channel: event_queue Post receive "\<lambda>q. q" engineBacklog
  by unfold_locales (simp_all add: Post_def receive_def)

section \<open>One event\<close>

fun run_event :: "env \<Rightarrow> unmarshal \<Rightarrow> Config \<Rightarrow> event \<Rightarrow> state \<Rightarrow> state option" where
  "run_event E unm cfg (LinkEvent u) s = Some (handleLinkEvent E u s)"
| "run_event E unm cfg (AddrEvent u) s = Some (handleAddrEvent E u s)"
| "run_event E unm cfg (NeighEvent u) s = Some (handleNeighEvent E u s)"
| "run_event E unm cfg (RouteEvent u) s = Some (handleRouteEvent u s)"
| "run_event E unm cfg (DHCPEvent ds src dat) s = handleDHCPv4 E ds src dat s"
| "run_event E unm cfg ReloadEvent s = Some (Reload E unm cfg s)"
| "run_event E unm cfg SweepEvent s = Some (sweepFailedAndOrphans E s)"
| "run_event E unm cfg ReconcileEvent s = Some (runReconcile E s)"

definition Run1 :: "env \<Rightarrow> unmarshal \<Rightarrow> Config \<Rightarrow> state \<times> event list \<Rightarrow> (state \<times> event list) option" where
  \<comment> \<open>one iteration of \<open>Run\<close>; \<open>None\<close> when it waits (or panics, which it never does)\<close>
  "Run1 E unm cfg d = (case d of (s, q) \<Rightarrow> do {
     (e, q') \<leftarrow> receive q;
     s' \<leftarrow> run_event E unm cfg e s;
     Some (s', q')
   })"

definition fire :: "64 word \<times> timer \<Rightarrow> state \<times> event list \<Rightarrow> (state \<times> event list) option" where
  \<comment> \<open>what a timer does when it fires: the function given to \<open>time.AfterFunc\<close>\<close>
  "fire t d = (case d of (s, q) \<Rightarrow>
     (let s1 = s\<lparr>timers := remove1 t (timers s)\<rparr>
      in case snd t of
           ReconcileTimer \<Rightarrow> do { q' \<leftarrow> Post ReconcileEvent q; Some (s1, q') }
         | SweepTimer \<Rightarrow> do { q' \<leftarrow> Post SweepEvent q; Some (startMirrorSweep s1, q') }))"

definition external :: "event \<Rightarrow> bool" where
  \<comment> \<open>the events posted by goroutines other than timers\<close>
  "external e \<longleftrightarrow> e \<noteq> SweepEvent \<and> e \<noteq> ReconcileEvent"

inductive engine_step ::
  "env \<Rightarrow> unmarshal \<Rightarrow> Config \<Rightarrow> state \<times> event list \<Rightarrow> state \<times> event list \<Rightarrow> bool"
  for E unm cfg where
  post: "external e \<Longrightarrow> Post e q = Some q' \<Longrightarrow> engine_step E unm cfg (s, q) (s, q')"
| fires: "t \<in> set (timers s) \<Longrightarrow> fire t (s, q) = Some d \<Longrightarrow> engine_step E unm cfg (s, q) d"
| runs: "Run1 E unm cfg d = Some d' \<Longrightarrow> engine_step E unm cfg d d'"
| reorder: "mset ifs = mset (interfaces s) \<Longrightarrow> mset ms = mset (mirroredNeighs s) \<Longrightarrow>
    engine_step E unm cfg (s, q) (s\<lparr>interfaces := ifs, mirroredNeighs := ms\<rparr>, q)"

inductive_cases engine_stepE: "engine_step E unm cfg d d'"

definition initial_state :: "int \<Rightarrow> state" where
  \<comment> \<open>the package variables once the netlink monitor runs, with the log level of the command line\<close>
  "initial_state level = \<lparr>heap = (\<lambda>r. new_Interface ''''), nextRef = 0, interfaces = [], nextSock = 0,
     mirroredNeighs = [], reconcileScheduled = False, staleClientSweepInterval = 300000000000,
     mirrorSweepDone = True, mirrorSweepOnce = False, logLevel = level, timers = [], trace = []\<rparr>"

inductive reachable :: "env \<Rightarrow> unmarshal \<Rightarrow> Config \<Rightarrow> state \<times> event list \<Rightarrow> bool"
  for E unm cfg where
  started: "0 \<le> level \<Longrightarrow> level < 8 \<Longrightarrow> reachable E unm cfg (initial_state level, [])"
| steps: "reachable E unm cfg d \<Longrightarrow> engine_step E unm cfg d d' \<Longrightarrow> reachable E unm cfg d'"

section \<open>The invariant\<close>

definition count_timer :: "timer \<Rightarrow> state \<Rightarrow> nat" where
  "count_timer t s = length (filter (\<lambda>x. snd x = t) (timers s))"

definition timers_ok :: "nat \<Rightarrow> state \<Rightarrow> bool" where
  \<comment> \<open>\<open>n\<close> reconcile events are queued\<close>
  "timers_ok n s \<longleftrightarrow>
     count_timer ReconcileTimer s + n = (if reconcileScheduled s then 1 else 0) \<and>
     count_timer SweepTimer s = (if mirrorSweepOnce s \<and> mirrorSweepDone s then 1 else 0)"

definition queued :: "event list \<Rightarrow> nat" where
  "queued q = length (filter (\<lambda>e. e = ReconcileEvent) q)"

definition engine_ok :: "state \<times> event list \<Rightarrow> bool" where
  "engine_ok d \<longleftrightarrow> state_ok (fst d) \<and> services_ok (fst d) \<and> timers_ok (queued (snd d)) (fst d) \<and>
     length (snd d) \<le> engineBacklog"

text \<open>Most operations leave the timers and their flags alone.\<close>

definition same_timers :: "state \<Rightarrow> state \<Rightarrow> bool" where
  "same_timers s t \<longleftrightarrow> timers t = timers s \<and> reconcileScheduled t = reconcileScheduled s \<and>
     mirrorSweepOnce t = mirrorSweepOnce s \<and> mirrorSweepDone t = mirrorSweepDone s"

lemma same_timers_ok: "same_timers s t \<Longrightarrow> timers_ok n t = timers_ok n s"
  by (simp add: same_timers_def timers_ok_def count_timer_def)

lemma same_timers_trans: "same_timers s t \<Longrightarrow> same_timers t u \<Longrightarrow> same_timers s u"
  by (simp add: same_timers_def)

lemma same_timers_mirror: "mirror_step P s t \<Longrightarrow> same_timers s t"
  by (simp add: same_timers_def mirror_step_frame)

lemma refresh_timers [simp]:
  "mirrorSweepOnce (refreshInterfaceAddresses E r s) = mirrorSweepOnce s"
  "mirrorSweepDone (refreshInterfaceAddresses E r s) = mirrorSweepDone s"
  by (simp_all add: refreshInterfaceAddresses_def case_prod_beta)

lemma same_timers_link: "same_timers s (handleLinkEvent E u s)"
  by (simp add: handleLinkEvent_def same_timers_def Let_def split: option.split)

lemma same_timers_addr: "same_timers s (handleAddrEvent E u s)"
  by (simp add: handleAddrEvent_def same_timers_def split: option.split)

lemma same_timers_parse: "same_timers s (snd (parseInterfaceJSON E name obj s))"
proof -
  obtain r t where f: "findOrCreateInterface name s = (r, t)" by fastforce
  have "same_timers s t"
    using f by (auto simp: findOrCreateInterface_def setInterfaceDefaults_def Let_def same_timers_def
        split: option.splits)
  then show ?thesis
    by (simp add: parseInterfaceJSON_def f Let_def adoptLink_def same_timers_def
        split: option.split sum.split)
qed

lemma same_timers_fold: "(\<And>x s. same_timers s (f x s)) \<Longrightarrow> same_timers s (fold f xs s)"
  by (rule fold_invariant [where I = "same_timers s"])
    (auto intro: same_timers_trans simp: same_timers_def)

lemma same_timers_load: "same_timers s (loadConfigJSON E unm cfg s)"
proof -
  have "same_timers s (applyGlobal cfg root (issue c s))" for s root c
    by (auto simp: applyGlobal_def same_timers_def Let_def split: option.split)
  moreover have "same_timers s (parsed E objs s)" for s objs
    unfolding parsed_def by (rule same_timers_fold) (simp add: case_prod_beta same_timers_parse)
  ultimately have "same_timers s (parsed E objs (applyGlobal cfg root (issue c s)))" for s objs root c
    by (rule same_timers_trans)
  then show ?thesis
    unfolding loadConfigJSON_eq by (auto simp: same_timers_def split: option.split)
qed

lemma timers_ok_sweep: "timers_ok n s \<Longrightarrow> timers_ok n (scheduleMirrorSweep s)"
  by (auto simp: timers_ok_def scheduleMirrorSweep_def startMirrorSweep_def count_timer_def Let_def)

lemma Reload_timers:
  "\<exists>u. same_timers s u \<and> same_timers (scheduleMirrorSweep u) (Reload E unm cfg s)"
proof -
  have set: "same_timers s (set_iface r f s)" for s r f
    by (simp add: same_timers_def)
  have "same_timers s (fold resetIface rs s)" for rs s
    by (rule same_timers_fold) (simp add: resetIface_alt set)
  then have load: "same_timers s (loaded E unm cfg s)"
    by (rule same_timers_trans [OF _ same_timers_load])
  have all: "same_timers s (fold (\<lambda>r. set_iface r f) rs s)" for rs s f
    by (rule same_timers_fold) (rule set)
  have "same_timers s (fold (applyIface E) rs s)" for rs s
    by (rule same_timers_fold) (simp add: applyIface_def same_timers_def closeInterface_frame)
  with all have "same_timers (scheduleMirrorSweep (loaded E unm cfg s)) (Reload E unm cfg s)"
    unfolding Reload_plan reload_plan_alt plan_of_def Let_def by (rule same_timers_trans)
  with load show ?thesis by blast
qed

lemma timers_ok_Reload: "timers_ok n s \<Longrightarrow> timers_ok n (Reload E unm cfg s)"
  using Reload_timers [of s E unm cfg] timers_ok_sweep same_timers_ok by blast

lemma Reload_flag: "reconcileScheduled (Reload E unm cfg s) = reconcileScheduled s"
  using Reload_timers [of s E unm cfg]
  by (auto simp: same_timers_def scheduleMirrorSweep_def startMirrorSweep_def Let_def)

lemma timers_ok_schedule:
  "timers_ok n s \<Longrightarrow> timers_ok n (scheduleReconcile s)"
  by (auto simp: timers_ok_def scheduleReconcile_def count_timer_def)


lemma handleDHCPv4_total: "\<exists>t. handleDHCPv4 E ds src dat s = Some t \<and> mirror_step client_key s t"
  using handleDHCPv4_step by blast

lemma run_event_total: "\<exists>t. run_event E unm cfg e s = Some t"
  using handleDHCPv4_total by (cases e) (auto, blast)

lemma sweep_step: "mirror_step client_key s (sweepFailedAndOrphans E s)"
  by (rule sweepFailedAndOrphans.only_mirror)

lemma neigh_step: "mirror_step client_key s (handleNeighEvent E u s)"
  by (rule handleNeighEvent.only_mirror)

lemma run_event_state:
  assumes "run_event E unm cfg e s = Some t" and "state_ok s" and "services_ok s"
  shows "state_ok t \<and> services_ok t \<and> fresh_socks s t"
proof -
  have mir: "mirror_step client_key s u \<Longrightarrow> state_ok u \<and> services_ok u \<and> fresh_socks s u" for u
    using assms(2,3) state_ok_mirror_step services_ok_mirror_step fresh_socks_mirror by blast
  have same: "heap u = heap s \<Longrightarrow> nextSock u = nextSock s \<Longrightarrow> fresh_socks s u" for u
    by (rule fresh_socks_same) simp_all
  show ?thesis
  proof (cases e)
    case (DHCPEvent ds src dat)
    then show ?thesis
      using assms(1) mir handleDHCPv4_total [of E ds src dat s] by auto
  next
    case (RouteEvent u)
    then show ?thesis
      using assms handleRouteEvent_ok [of s u] same [of t]
      by (auto simp: handleRouteEvent_def scheduleReconcile_def split: option.splits if_splits)
  next
    case (AddrEvent u)
    then show ?thesis
      using assms handleAddrEvent_ok [of s E u]
      by (auto simp: handleAddrEvent_def fresh_socks_ops split: option.splits)
  next
    case ReconcileEvent
    then show ?thesis
      using assms runReconcile_ok [of s E] same [of t] by (auto simp: runReconcile_def)
  next
    case ReloadEvent
    then show ?thesis
      using assms Reload_result [of s E unm cfg] fresh_socks_Reload by auto
  next
    case (LinkEvent u)
    then show ?thesis
      using assms handleLinkEvent_ok handleLinkEvent_services_ok fresh_socks_link by auto
  qed (use assms(1) mir sweep_step neigh_step in auto)
qed

lemma run_event_timers:
  assumes "run_event E unm cfg e s = Some t" and "timers_ok (queued (e # q)) s"
  shows "timers_ok (queued q) t"
proof -
  have same: "same_timers s u \<Longrightarrow> timers_ok (queued q) s \<Longrightarrow> timers_ok (queued q) u" for u
    by (simp add: same_timers_ok)
  show ?thesis
  proof (cases e)
    case (DHCPEvent ds src dat)
    then show ?thesis
      using assms same [OF same_timers_mirror] handleDHCPv4_total [of E ds src dat s]
      by (auto simp: queued_def)
  next
    case (RouteEvent u)
    then show ?thesis
      using assms timers_ok_schedule [of "queued q" s]
      by (auto simp: handleRouteEvent_def queued_def split: option.splits if_splits)
  next
    case ReconcileEvent
    then show ?thesis
      using assms
      by (auto simp: runReconcile_def queued_def timers_ok_def count_timer_def split: if_splits)
  qed (use assms same same_timers_link same_timers_addr timers_ok_Reload
      same_timers_mirror [OF sweep_step] same_timers_mirror [OF neigh_step] in \<open>auto simp: queued_def\<close>)
qed

lemma run_event_flag:
  assumes "run_event E unm cfg e s = Some t" and "e \<noteq> ReconcileEvent" and "reconcileScheduled s"
  shows "reconcileScheduled t"
proof (cases e)
  case (DHCPEvent ds src dat)
  then show ?thesis
    using assms handleDHCPv4_total [of E ds src dat s] by (auto simp: mirror_step_frame)
next
  case (RouteEvent u)
  then show ?thesis
    using assms by (auto simp: handleRouteEvent_def scheduleReconcile_def split: option.splits if_splits)
qed (use assms same_timers_link same_timers_addr Reload_flag
    in \<open>auto simp: same_timers_def mirror_step_frame [OF sweep_step] mirror_step_frame [OF neigh_step]\<close>)

lemma Run1_ok:
  assumes "Run1 E unm cfg d = Some d'" and "engine_ok d"
  shows "engine_ok d'"
proof -
  obtain s e q s' where d: "d = (s, e # q)" and d': "d' = (s', q)" and r: "run_event E unm cfg e s = Some s'"
    using assms(1) by (auto simp: Run1_def receive_def split: prod.splits list.splits Option.bind_splits)
  show ?thesis
    using run_event_state [OF r] run_event_timers [OF r, of q] assms(2)
    by (auto simp: d d' engine_ok_def)
qed

lemma count_remove1:
  "t \<in> set ts \<Longrightarrow> length (filter P (remove1 t ts)) = length (filter P ts) - (if P t then 1 else 0)"
  by (simp add: filter_remove1 length_remove1)

lemma count_pos: "t \<in> set ts \<Longrightarrow> P t \<Longrightarrow> 0 < length (filter P ts)"
  by (auto simp: filter_empty_conv)

lemma fire_ok:
  assumes "fire t (s, q) = Some d" and "t \<in> set (timers s)" and "engine_ok (s, q)"
  shows "engine_ok d"
proof -
  have "0 < count_timer (snd t) s"
    using count_pos [OF assms(2), of "\<lambda>x. snd x = snd t"] by (simp add: count_timer_def)
  then have pos: "snd t = k \<Longrightarrow> 0 < count_timer k s" for k
    by simp
  have cnt: "count_timer k (s\<lparr>timers := remove1 t (timers s)\<rparr>) = count_timer k s - (if snd t = k then 1 else 0)" for k
    using assms(2) by (simp add: count_timer_def count_remove1)
  have add: "count_timer k (startMirrorSweep u) = count_timer k u + (if k = SweepTimer then 1 else 0)" for k u
    by (simp add: count_timer_def startMirrorSweep_def)
  have fields: "reconcileScheduled (startMirrorSweep u) = reconcileScheduled u"
    "mirrorSweepOnce (startMirrorSweep u) = mirrorSweepOnce u"
    "mirrorSweepDone (startMirrorSweep u) = mirrorSweepDone u"
    "state_ok (startMirrorSweep u) = state_ok u" "services_ok (startMirrorSweep u) = services_ok u" for u
    by (simp_all add: startMirrorSweep_def services_ok_def)
  have sv: "services_ok (s\<lparr>timers := ts\<rparr>) = services_ok s" for ts
    by (simp add: services_ok_def)
  have n: "queued (q @ [e]) = queued q + (if e = ReconcileEvent then 1 else 0)" for e
    by (simp add: queued_def)
  show ?thesis
  proof (cases "snd t")
    case ReconcileTimer
    then show ?thesis
      using assms(1,3) pos [of ReconcileTimer] cnt
      by (auto simp: fire_def Post_def engine_ok_def timers_ok_def n sv split: if_splits)
  next
    case SweepTimer
    then show ?thesis
      using assms(1,3) pos [of SweepTimer] cnt
      by (auto simp: fire_def Post_def engine_ok_def timers_ok_def n sv add fields split: if_splits)
  qed
qed

lemma reorder_ok:
  assumes "mset ifs = mset (interfaces s)" and "mset ms = mset (mirroredNeighs s)" and "engine_ok (s, q)"
  shows "engine_ok (s\<lparr>interfaces := ifs, mirroredNeighs := ms\<rparr>, q)"
proof -
  let ?t = "s\<lparr>interfaces := ifs, mirroredNeighs := ms\<rparr>"
  have sets: "set ifs = set (interfaces s)" "set ms = set (mirroredNeighs s)"
    "distinct ms = distinct (mirroredNeighs s)"
    using assms(1,2) by (auto dest: mset_eq_setD mset_eq_imp_distinct_iff)
  have "distinct (map fst ifs) = distinct (map fst (interfaces s))"
    "distinct (map snd ifs) = distinct (map snd (interfaces s))"
    using assms(1) by (simp_all add: mset_eq_imp_distinct_iff)
  then have "registry_ok ?t = registry_ok s" "socks_wf ?t = socks_wf s" "mirror_ok ?t = mirror_ok s"
    using sets by (simp_all add: registry_ok_def socks_wf_def mirror_ok_def iface_refs_def list_all_iff)
  then show ?thesis
    using assms(3)
    by (simp add: engine_ok_def state_ok_def services_ok_def timers_ok_def count_timer_def)
qed

lemma post_ok:
  "external e \<Longrightarrow> Post e q = Some q' \<Longrightarrow> engine_ok (s, q) \<Longrightarrow> engine_ok (s, q')"
  by (auto simp: engine_ok_def Post_def external_def queued_def split: if_splits)

lemma engine_step_ok:
  assumes "engine_step E unm cfg d d'" and "engine_ok d"
  shows "engine_ok d'"
  using assms(1) by (rule engine_stepE) (use assms(2) post_ok fire_ok Run1_ok reorder_ok in auto)

lemma initial_ok: "engine_ok (initial_state level, [])"
  by (simp add: engine_ok_def initial_state_def state_ok_def registry_ok_def socks_wf_def mirror_ok_def
      services_ok_def service_ok_def timers_ok_def count_timer_def queued_def new_Interface_def iface_refs_def)

lemma reachable_ok: "reachable E unm cfg d \<Longrightarrow> engine_ok d"
  by (induction rule: reachable.induct) (simp_all add: initial_ok engine_step_ok)

section \<open>Along a run\<close>

definition later :: "env \<Rightarrow> unmarshal \<Rightarrow> Config \<Rightarrow> state \<times> event list \<Rightarrow> state \<times> event list \<Rightarrow> bool" where
  "later E unm cfg = (engine_step E unm cfg)\<^sup>*\<^sup>*"

lemma engine_step_fresh:
  assumes "engine_step E unm cfg d d'" and "engine_ok d"
  shows "fresh_socks (fst d) (fst d')"
  using assms
proof (cases rule: engine_step.cases)
  case (fires t s q)
  then show ?thesis
    by (auto simp: fire_def startMirrorSweep_def Post_def Let_def split: timer.splits if_splits
        intro!: fresh_socks_same)
next
  case runs
  then show ?thesis
    using assms(2) run_event_state
    by (fastforce simp: Run1_def receive_def engine_ok_def split: prod.splits list.splits Option.bind_splits)
qed (auto simp: fresh_socks_refl intro: fresh_socks_same)

lemma later_ok:
  assumes "later E unm cfg d d'" and "engine_ok d"
  shows "engine_ok d' \<and> fresh_socks (fst d) (fst d')"
  using assms(1) unfolding later_def
proof (induction rule: rtranclp_induct)
  case base
  then show ?case by (simp add: assms(2) fresh_socks_refl)
next
  case (step y z)
  then show ?case
    using engine_step_ok engine_step_fresh fresh_socks_trans by blast
qed

lemma closed_stays_closed:
  assumes "later E unm cfg d d'" and "engine_ok d" and "ds_id ds < nextSock (fst d)"
    and "\<not> ifaceHasDHCPSock (heap (fst d) r) ds"
  shows "\<not> ifaceHasDHCPSock (heap (fst d') r) ds"
  using later_ok [OF assms(1,2)] assms(3,4)
  by (fastforce simp: ifaceHasDHCPSock_def list_ex_iff fresh_socks_def)

lemma step_run:
  assumes "q = e # q'"
  shows "\<exists>s'. run_event E unm cfg e s = Some s' \<and> engine_step E unm cfg (s, q) (s', q')"
proof -
  obtain s' where "run_event E unm cfg e s = Some s'"
    using run_event_total by blast
  then show ?thesis
    using assms by (auto intro!: engine_step.runs simp: Run1_def receive_def)
qed

lemma later_first: "engine_step E unm cfg d d' \<Longrightarrow> later E unm cfg d' d'' \<Longrightarrow> later E unm cfg d d''"
  unfolding later_def by (rule converse_rtranclp_into_rtranclp)

lemma drained: "\<exists>s'. later E unm cfg (s, q) (s', [])"
proof (induction q arbitrary: s)
  case Nil
  then show ?case by (auto simp: later_def)
next
  case (Cons e q)
  obtain s1 where "engine_step E unm cfg (s, e # q) (s1, q)"
    using step_run [of "e # q" e q E unm cfg s] by auto
  then show ?case
    using Cons.IH [of s1] later_first by blast
qed

lemma runReconcile_flag: "\<not> reconcileScheduled (runReconcile E s)"
  by (simp add: runReconcile_def)

text \<open>A scheduled reconciliation can always run to its end.\<close>

lemma reconcile_can_run:
  assumes "engine_ok (s, q)" and "reconcileScheduled s"
  shows "\<exists>s1 q1. later E unm cfg (s, q) (s1, ReconcileEvent # q1) \<and>
    engine_step E unm cfg (s1, ReconcileEvent # q1) (runReconcile E s1, q1)"
proof -
  have run: "engine_step E unm cfg (s1, ReconcileEvent # q1) (runReconcile E s1, q1)" for s1 q1
    by (rule engine_step.runs) (simp add: Run1_def receive_def)
  have "\<exists>s1 q1. later E unm cfg (s, q) (s1, ReconcileEvent # q1)"
    using assms
  proof (induction q arbitrary: s)
    case Nil
    then have "filter (\<lambda>x. snd x = ReconcileTimer) (timers s) \<noteq> []"
      by (auto simp: engine_ok_def timers_ok_def queued_def count_timer_def)
    then obtain t where t: "t \<in> set (timers s)" "snd t = ReconcileTimer"
      by (auto simp: filter_empty_conv)
    then have "fire t (s, []) = Some (s\<lparr>timers := remove1 t (timers s)\<rparr>, [ReconcileEvent])"
      by (simp add: fire_def Post_def)
    with t have "engine_step E unm cfg (s, []) (s\<lparr>timers := remove1 t (timers s)\<rparr>, [ReconcileEvent])"
      by (auto intro: engine_step.fires)
    then show ?case
      unfolding later_def by blast
  next
    case (Cons e q)
    show ?case
    proof (cases "e = ReconcileEvent")
      case True
      then show ?thesis
        by (auto simp: later_def)
    next
      case False
      obtain s1 where s1: "run_event E unm cfg e s = Some s1" "engine_step E unm cfg (s, e # q) (s1, q)"
        using step_run [of "e # q" e q E unm cfg s] by auto
      have ok: "engine_ok (s1, q)"
        using engine_step_ok [OF s1(2)] Cons.prems by blast
      have "reconcileScheduled s1"
        using run_event_flag [OF s1(1) False] Cons.prems(2) by blast
      then show ?thesis
        using Cons.IH [OF ok] later_first [OF s1(2)] by blast
    qed
  qed
  with run show ?thesis by blast
qed

section \<open>Properties of the running daemon\<close>

lemma sample_engine_ok: "engine_ok (sample_state, [])"
proof -
  have "services_ok sample_state"
    by (auto simp: services_ok_def service_ok_def sample_state_def new_Interface_def)
  moreover have "timers_ok (queued []) sample_state"
    by (simp add: timers_ok_def count_timer_def queued_def sample_state_def)
  ultimately show ?thesis
    by (simp add: engine_ok_def sample_state_ok)
qed



text \<open>C18: Timers never pile up: in every reachable state a reconciliation is marked as scheduled exactly when
  one reconcile timer is running or one reconcile event is queued, never two; the periodic sweep has one
  timer once the first reload has run, however many reloads follow, and none before; and the event queue
  never holds more than 1024 events.\<close>
theorem reachable_timers:
  assumes "reachable E unm cfg (s, q)"
  shows "length (filter (\<lambda>t. snd t = ReconcileTimer) (timers s)) + length (filter (\<lambda>e. e = ReconcileEvent) q) =
      (if reconcileScheduled s then 1 else 0) \<and>
    length (filter (\<lambda>t. snd t = SweepTimer) (timers s)) = (if mirrorSweepOnce s \<and> mirrorSweepDone s then 1 else 0) \<and>
    length q \<le> 1024"
  using reachable_ok [OF assms]
  by (simp add: engine_ok_def timers_ok_def count_timer_def queued_def)

lemma reachable_timers_witness:
  "length (filter (\<lambda>t. snd t = SweepTimer) (timers (initial_state 4))) = 0"
proof -
  have "reachable quiet_env (\<lambda>b. Inl '''') sample_cfg (initial_state 4, [])"
    by (rule reachable.started) simp_all
  from reachable_timers [OF this] show ?thesis
    by (simp add: initial_state_def)
qed



text \<open>A scheduled reconciliation is never lost: from every state that meets the invariant (as all reachable
  states do) and in which one is scheduled, the daemon can always get to the point where it is the next event, by handling the queued events and firing
  the timer, and handling it runs the reconciliation to its end and clears the mark.\<close>
lemma reconcile_not_lost:
  assumes "engine_ok (s, q)" and "reconcileScheduled s"
  shows "\<exists>s1 q1. later E unm cfg (s, q) (s1, ReconcileEvent # q1) \<and>
    Run1 E unm cfg (s1, ReconcileEvent # q1) = Some (runReconcile E s1, q1) \<and>
    \<not> reconcileScheduled (runReconcile E s1)"
  using reconcile_can_run [OF assms, of E unm cfg] runReconcile_flag
  by (fastforce simp: Run1_def receive_def)



text \<open>The channel: events are run in the order they were posted, none is lost, and a sender blocks exactly
  when 1024 events are waiting; so posting from the engine goroutine itself would block it for good on
  a full queue.\<close>
lemma Post_in_order:
  assumes "length q \<le> engineBacklog"
  shows "fold_opt Post es q = (if length q + length es \<le> 1024 then Some (q @ es) else None)"
proof (cases "length q + length es \<le> 1024")
  case True
  then obtain q' where "fold_opt Post es q = Some q'"
    using channel.posts_room [of q es] by auto
  with True channel.posts_in_order show ?thesis by fastforce
next
  case False
  then show ?thesis
    using channel.posts_bounded [OF assms, of es] channel.posts_in_order [of es q]
    by (cases "fold_opt Post es q") auto
qed

lemma Post_in_order_witness:
  "fold_opt Post [ReloadEvent, SweepEvent] [ReconcileEvent] = Some [ReconcileEvent, ReloadEvent, SweepEvent]"
  using Post_in_order [of "[ReconcileEvent]" "[ReloadEvent, SweepEvent]"] by simp

end
