(* ===== verification/Strconv.thy ===== *)
theory Strconv
  imports Relay_Prelude
begin

text \<open>
  The number parsing of Go's \<open>strconv\<close>, as the program reaches it: \<open>ParseInt(s, 0, 64)\<close> for the
  flag \<open>-l\<close> and \<open>ParseInt(s, 10, 64)\<close> for the numbers of the configuration file, and \<open>ParseBool\<close>
  for the boolean flags. Every error is \<open>None\<close>. The decimal printer is the reference the
  round trips are stated with.
\<close>

definition lower :: "char \<Rightarrow> int" where
  "lower c = (of_char c OR 32)"

definition is_digit :: "char \<Rightarrow> bool" where
  "is_digit c \<longleftrightarrow> 48 \<le> (of_char c :: int) \<and> (of_char c :: int) \<le> 57"

definition digit_val :: "char \<Rightarrow> int option" where
  "digit_val c =
     (if is_digit c then Some (of_char c - 48)
      else if 97 \<le> lower c \<and> lower c \<le> 122 then Some (lower c - 97 + 10)
      else None)"

fun digits_value :: "int \<Rightarrow> bool \<Rightarrow> string \<Rightarrow> int \<Rightarrow> int option" where
  "digits_value base base0 [] n = Some n"
| "digits_value base base0 (c # cs) n =
     (if c = CHR ''_'' \<and> base0 then digits_value base base0 cs n
      else (case digit_val c of
              None \<Rightarrow> None
            | Some d \<Rightarrow> if base \<le> d then None else digits_value base base0 cs (n * base + d)))"

definition base_prefix :: "string \<Rightarrow> int \<times> string" where
  \<comment> \<open>the base a literal selects when the base asked for is 0, and the digits that are left\<close>
  "base_prefix s =
     (if s = [] \<or> hd s \<noteq> CHR ''0'' then (10, s)
      else if 3 \<le> length s \<and> lower (s ! 1) = 98 then (2, drop 2 s)
      else if 3 \<le> length s \<and> lower (s ! 1) = 111 then (8, drop 2 s)
      else if 3 \<le> length s \<and> lower (s ! 1) = 120 then (16, drop 2 s)
      else (8, tl s))"

datatype last_seen = Start | Digit | Underscore | Other

fun underscore_walk :: "bool \<Rightarrow> last_seen \<Rightarrow> string \<Rightarrow> bool" where
  "underscore_walk hex i [] = (i \<noteq> Underscore)"
| "underscore_walk hex i (c # cs) =
     (if is_digit c \<or> (hex \<and> 97 \<le> lower c \<and> lower c \<le> 102) then underscore_walk hex Digit cs
      else if c = CHR ''_'' then (if i \<noteq> Digit then False else underscore_walk hex Underscore cs)
      else if i = Underscore then False
      else underscore_walk hex Other cs)"

definition underscoreOK :: "string \<Rightarrow> bool" where
  \<comment> \<open>of a literal whose sign is gone\<close>
  "underscoreOK s =
     (if 2 \<le> length s \<and> hd s = CHR ''0'' \<and> lower (s ! 1) \<in> {98, 111, 120}
      then underscore_walk (lower (s ! 1) = 120) Digit (drop 2 s)
      else underscore_walk False Start s)"

definition ParseUint :: "int \<Rightarrow> string \<Rightarrow> int option" where
  \<comment> \<open>\<open>ParseUint(s, base, 64)\<close>, for the bases 0 and 10\<close>
  "ParseUint base s =
     (if s = [] then None
      else (case (if base = 0 then base_prefix s else (base, s)) of (b, ds) \<Rightarrow>
        (case digits_value b (base = 0) ds 0 of
           None \<Rightarrow> None
         | Some n \<Rightarrow>
             if 2 ^ 64 \<le> n then None
             else if base = 0 \<and> CHR ''_'' \<in> set ds \<and> \<not> underscoreOK s then None
             else Some n)))"

definition ParseInt :: "int \<Rightarrow> string \<Rightarrow> int option" where
  \<comment> \<open>\<open>ParseInt(s, base, 64)\<close>\<close>
  "ParseInt base s =
     (if s = [] then None
      else (let neg = (hd s = CHR ''-'');
                ds = (if hd s = CHR ''+'' \<or> hd s = CHR ''-'' then tl s else s)
            in case ParseUint base ds of
                 None \<Rightarrow> None
               | Some un \<Rightarrow>
                   if \<not> neg \<and> 2 ^ 63 \<le> un then None
                   else if neg \<and> 2 ^ 63 < un then None
                   else Some (if neg then - un else un)))"

definition ParseBool :: "string \<Rightarrow> bool option" where
  "ParseBool s =
     (if s \<in> {''1'', ''t'', ''T'', ''true'', ''TRUE'', ''True''} then Some True
      else if s \<in> {''0'', ''f'', ''F'', ''false'', ''FALSE'', ''False''} then Some False
      else None)"

section \<open>Printing decimals\<close>

definition digit_char :: "nat \<Rightarrow> char" where
  "digit_char d = char_of (48 + int d)"

fun show_nat :: "nat \<Rightarrow> string" where
  "show_nat n = (if n < 10 then [digit_char n] else show_nat (n div 10) @ [digit_char (n mod 10)])"

declare show_nat.simps [simp del]

definition show_int :: "int \<Rightarrow> string" where
  "show_int i = (if i < 0 then CHR ''-'' # show_nat (nat (- i)) else show_nat (nat i))"

lemma digit_char_val [simp]:
  assumes "d < 10"
  shows "is_digit (digit_char d)" and "digit_val (digit_char d) = Some (int d)" and "digit_char d \<noteq> CHR ''_''"
proof -
  have "(of_char (digit_char d) :: int) = 48 + int d"
    using assms by (simp add: digit_char_def)
  then show "is_digit (digit_char d)" and "digit_val (digit_char d) = Some (int d)" and "digit_char d \<noteq> CHR ''_''"
    using assms by (auto simp: is_digit_def digit_val_def)
qed

lemma digits_value_append:
  "digits_value b z (xs @ ys) n = Option.bind (digits_value b z xs n) (digits_value b z ys)"
  by (induction xs arbitrary: n) (auto split: option.split)

lemma show_nat_digits: "list_all is_digit (show_nat n)"
  by (induction n rule: show_nat.induct) (subst show_nat.simps, simp)

lemma show_nat_not_Nil [simp]: "show_nat n \<noteq> []"
  by (subst show_nat.simps) simp

lemma not_ten_le_mod: "\<not> 10 \<le> n mod (10 :: nat)" "\<not> 10 \<le> i mod (10 :: int)"
  by (simp_all add: not_le)

lemma show_nat_value: "digits_value 10 z (show_nat n) 0 = Some (int n)"
proof (induction n rule: show_nat.induct)
  case (1 n)
  then show ?case
    by (subst show_nat.simps) (simp add: digits_value_append not_ten_le_mod zdiv_int zmod_int)
qed

lemma show_nat_hd: "0 < n \<Longrightarrow> hd (show_nat n) \<noteq> CHR ''0''"
proof (induction n rule: show_nat.induct)
  case (1 n)
  have "digit_char n \<noteq> CHR ''0''" if "n < 10"
    using digit_char_val(2) [OF that] 1(2) by (auto simp: digit_val_def is_digit_def)
  with 1 show ?case
    by (subst show_nat.simps) (simp add: hd_append)
qed

lemma not_digit [simp]:
  "\<not> is_digit CHR ''+''" "\<not> is_digit CHR ''-''" "\<not> is_digit CHR ''_''" "\<not> is_digit CHR ''.''"
  "is_digit CHR ''0''"
  by (simp_all add: is_digit_def)

lemma show_nat_no:
  "\<not> is_digit c \<Longrightarrow> c \<notin> set (show_nat n)"
  using show_nat_digits [of n] by (auto simp: list_all_iff)

lemma hd_show_nat: "is_digit (hd (show_nat n))"
  using show_nat_digits [of n] hd_in_set [OF show_nat_not_Nil] by (auto simp: list_all_iff)

lemma ParseUint_show:
  assumes "base = 0 \<or> base = 10" and "n < 2 ^ 64"
  shows "ParseUint base (show_nat n) = Some (int n)"
proof -
  have "(if base = 0 then base_prefix (show_nat n) else (base, show_nat n)) = (10, show_nat n) \<or>
      n = 0 \<and> (if base = 0 then base_prefix (show_nat n) else (base, show_nat n)) = (8, [])"
  proof (cases "n = 0 \<and> base = 0")
    case True
    then show ?thesis
      by (simp add: show_nat.simps [of 0] base_prefix_def digit_char_def)
  next
    case False
    then show ?thesis
      using assms(1) show_nat_hd [of n] by (auto simp: base_prefix_def)
  qed
  then show ?thesis
    using assms(2) show_nat_value [of _ n] show_nat_no [of "CHR ''_''" n]
    by (auto simp: ParseUint_def)
qed

lemma ParseInt_show:
  assumes "base = 0 \<or> base = 10" and "- (2 ^ 63) \<le> i" and "i < 2 ^ 63"
  shows "ParseInt base (show_int i) = Some i"
proof (cases "i < 0")
  case True
  then show ?thesis
    using assms ParseUint_show [of base "nat (- i)"]
    by (simp add: ParseInt_def show_int_def)
next
  case False
  then show ?thesis
    using assms ParseUint_show [of base "nat i"] hd_show_nat [of "nat i"]
    by (auto simp: ParseInt_def show_int_def Let_def)
qed

end
