(* ===== verification/Command_Line.thy ===== *)
theory Command_Line
  imports Strconv
begin

text \<open>
  The command line (\<open>flag.Parse\<close> on the five flags that \<open>main\<close> of \<open>cmd/ipv4-relay/main.go\<close>
  declares): the argument loop of Go's \<open>flag\<close> package over \<open>os.Args[1:]\<close>, with one or two dashes,
  a value in the same or in the next argument, boolean flags that take a value only after an equals
  sign, and the end of the flags at \<open>--\<close> or at the first argument that is no flag. Whatever the
  package rejects is \<open>ParseError\<close>: it then calls \<open>flag.Usage\<close>, which \<open>main\<close> sets to a function that
  exits. The reference is a list of spelled settings.
\<close>

section \<open>The flags and the argument loop\<close>

record flags =
  f_c :: string
  f_l :: "int option"
  f_f :: bool
  f_v :: bool
  f_h :: bool
  \<comment> \<open>\<open>f_l\<close> is \<open>None\<close> when \<open>-l\<close> is not on the command line, which is what \<open>flag.Visit\<close> tells\<close>

datatype parsed_flags = ParseError | Parsed flags

datatype flag_kind = StringFlag | IntFlag | BoolFlag

definition default_flags :: flags where
  "default_flags = \<lparr>f_c = '''', f_l = None, f_f = False, f_v = False, f_h = False\<rparr>"

definition formal :: "string \<Rightarrow> flag_kind option" where
  \<comment> \<open>the flags \<open>main\<close> declares\<close>
  "formal = [''c'' \<mapsto> StringFlag, ''l'' \<mapsto> IntFlag, ''f'' \<mapsto> BoolFlag, ''v'' \<mapsto> BoolFlag, ''h'' \<mapsto> BoolFlag]"

definition set_bool :: "string \<Rightarrow> bool \<Rightarrow> flags \<Rightarrow> flags" where
  "set_bool name b fl =
     (if name = ''f'' then fl\<lparr>f_f := b\<rparr> else if name = ''v'' then fl\<lparr>f_v := b\<rparr> else fl\<lparr>f_h := b\<rparr>)"

definition set_flag :: "flag_kind \<Rightarrow> string \<Rightarrow> string \<Rightarrow> flags \<Rightarrow> flags option" where
  \<comment> \<open>\<open>Value.Set\<close>\<close>
  "set_flag k name value fl = (case k of
     StringFlag \<Rightarrow> Some (fl\<lparr>f_c := value\<rparr>)
   | IntFlag \<Rightarrow> map_option (\<lambda>n. fl\<lparr>f_l := Some n\<rparr>) (ParseInt 0 value)
   | BoolFlag \<Rightarrow> map_option (\<lambda>b. set_bool name b fl) (ParseBool value))"

datatype argument = NoFlag | BadSyntax | FlagArg string "string option"

definition split_equals :: "string \<Rightarrow> string \<times> string option" where
  \<comment> \<open>the first equals sign after the first character ends the name\<close>
  "split_equals name =
     (case dropWhile (\<lambda>c. c \<noteq> CHR ''='') (tl name) of
        [] \<Rightarrow> (name, None)
      | e # value \<Rightarrow> (hd name # takeWhile (\<lambda>c. c \<noteq> CHR ''='') (tl name), Some value))"

definition classify :: "string \<Rightarrow> argument" where
  \<comment> \<open>how \<open>parseOne\<close> reads an argument; \<open>--\<close> ends the flags like an argument that is no flag\<close>
  "classify s =
     (if length s < 2 \<or> hd s \<noteq> CHR ''-'' then NoFlag
      else if s = ''--'' then NoFlag
      else (let name = (if s ! 1 = CHR ''-'' then drop 2 s else drop 1 s)
            in if name = [] \<or> hd name = CHR ''-'' \<or> hd name = CHR ''='' then BadSyntax
               else (case split_equals name of (n, v) \<Rightarrow> FlagArg n v)))"

fun flag_loop :: "string list \<Rightarrow> flags \<Rightarrow> parsed_flags" where
  "flag_loop [] fl = Parsed fl"
| "flag_loop (s # args) fl = (case classify s of
     NoFlag \<Rightarrow> Parsed fl
   | BadSyntax \<Rightarrow> ParseError
   | FlagArg name value \<Rightarrow>
       (case formal name of
          None \<Rightarrow> ParseError
        | Some BoolFlag \<Rightarrow>
            (case set_flag BoolFlag name (case value of Some v \<Rightarrow> v | None \<Rightarrow> ''true'') fl of
               None \<Rightarrow> ParseError
             | Some fl' \<Rightarrow> flag_loop args fl')
        | Some k \<Rightarrow>
            (case value of
               Some v \<Rightarrow> (case set_flag k name v fl of None \<Rightarrow> ParseError | Some fl' \<Rightarrow> flag_loop args fl')
             | None \<Rightarrow>
                 (case args of
                    [] \<Rightarrow> ParseError
                  | v # args' \<Rightarrow>
                      (case set_flag k name v fl of None \<Rightarrow> ParseError | Some fl' \<Rightarrow> flag_loop args' fl')))))"

definition flag_Parse :: "string list \<Rightarrow> parsed_flags" where
  "flag_Parse args = flag_loop args default_flags"

section \<open>Spelled settings\<close>

text \<open>
  What a user can write: a setting, with one dash or two, with its value in the same argument or
  not (for a boolean flag: with \<open>=true\<close> or \<open>=false\<close>, or, to set it, without a value).
\<close>

datatype setting = SetC string | SetL int | SetBool char bool

definition setting_ok :: "bool \<Rightarrow> setting \<Rightarrow> bool" where
  "setting_ok inline st = (case st of
     SetC path \<Rightarrow> True
   | SetL n \<Rightarrow> - (2 ^ 63) \<le> n \<and> n < 2 ^ 63
   | SetBool c b \<Rightarrow> c \<in> {CHR ''f'', CHR ''v'', CHR ''h''} \<and> (b \<or> inline))"

definition spell :: "bool \<times> bool \<times> setting \<Rightarrow> string list" where
  \<comment> \<open>two dashes, value in the same argument, what to set\<close>
  "spell x = (case x of (two, inline, st) \<Rightarrow>
     (let dash = (if two then ''--'' else ''-'')
      in case st of
           SetC path \<Rightarrow> if inline then [dash @ ''c='' @ path] else [dash @ ''c'', path]
         | SetL n \<Rightarrow> if inline then [dash @ ''l='' @ show_int n] else [dash @ ''l'', show_int n]
         | SetBool c b \<Rightarrow>
             if inline then [dash @ c # (if b then ''=true'' else ''=false'')] else [dash @ [c]]))"

definition assign :: "setting \<Rightarrow> flags \<Rightarrow> flags" where
  "assign st fl = (case st of
     SetC path \<Rightarrow> fl\<lparr>f_c := path\<rparr>
   | SetL n \<Rightarrow> fl\<lparr>f_l := Some n\<rparr>
   | SetBool c b \<Rightarrow> set_bool [c] b fl)"

definition ends_flags :: "string list \<Rightarrow> bool" where
  "ends_flags rest \<longleftrightarrow> rest = [] \<or> classify (hd rest) = NoFlag"

lemma classify_dash [simp]:
  "c \<noteq> CHR ''-'' \<Longrightarrow> c \<noteq> CHR ''='' \<Longrightarrow> classify (CHR ''-'' # c # cs) =
     (case split_equals (c # cs) of (n, v) \<Rightarrow> FlagArg n v)"
  "c \<noteq> CHR ''-'' \<Longrightarrow> c \<noteq> CHR ''='' \<Longrightarrow> classify (CHR ''-'' # CHR ''-'' # c # cs) =
     (case split_equals (c # cs) of (n, v) \<Rightarrow> FlagArg n v)"
  by (simp_all add: classify_def)

lemma split_equals_simps [simp]:
  "split_equals [c] = ([c], None)"
  "split_equals (c # CHR ''='' # v) = ([c], Some v)"
  by (simp_all add: split_equals_def)

lemma formal_simps [simp]:
  "formal ''c'' = Some StringFlag" "formal ''l'' = Some IntFlag" "formal ''f'' = Some BoolFlag"
  "formal ''v'' = Some BoolFlag" "formal ''h'' = Some BoolFlag"
  by (simp_all add: formal_def)

lemma ParseBool_simps [simp]: "ParseBool ''true'' = Some True" "ParseBool ''false'' = Some False"
  by (simp_all add: ParseBool_def)

lemma flag_loop_spell:
  assumes "setting_ok (fst (snd x)) (snd (snd x))"
  shows "flag_loop (spell x @ rest) fl = flag_loop rest (assign (snd (snd x)) fl)"
proof -
  obtain two inline st where x: "x = (two, inline, st)" by (cases x)
  show ?thesis
  proof (cases st)
    case (SetC path)
    then show ?thesis by (simp add: x spell_def assign_def set_flag_def Let_def)
  next
    case (SetL n)
    then show ?thesis
      using assms by (simp add: x spell_def assign_def set_flag_def setting_ok_def ParseInt_show Let_def)
  next
    case (SetBool c b)
    then have "c = CHR ''f'' \<or> c = CHR ''v'' \<or> c = CHR ''h''" and "b \<or> inline"
      using assms by (auto simp: x setting_ok_def)
    then show ?thesis
      using SetBool by (auto simp: x spell_def assign_def set_flag_def Let_def)
  qed
qed

lemma flag_loop_spelled:
  assumes "list_all (\<lambda>x. setting_ok (fst (snd x)) (snd (snd x))) xs"
  shows "flag_loop (concat (map spell xs) @ rest) fl = flag_loop rest (fold (assign \<circ> snd \<circ> snd) xs fl)"
  using assms by (induction xs arbitrary: fl) (simp_all add: flag_loop_spell)

text \<open>Every command line that is a sequence of well-formed settings, each in any of its spellings
  (one dash or two, the value after an equals sign or in the next argument), parses to exactly these
  settings, a later one overriding an earlier one, and everything from the first argument that is no
  flag, or from \<open>--\<close>, is ignored.\<close>
lemma flag_Parse_spelled:
  assumes "list_all (\<lambda>x. setting_ok (fst (snd x)) (snd (snd x))) xs" and "ends_flags rest"
  shows "flag_Parse (concat (map spell xs) @ rest) = Parsed (fold (assign \<circ> snd \<circ> snd) xs default_flags)"
proof -
  have "flag_loop rest fl = Parsed fl" for fl
    using assms(2) by (cases rest) (auto simp: ends_flags_def)
  then show ?thesis
    by (simp add: flag_Parse_def flag_loop_spelled [OF assms(1)])
qed

section \<open>What the package rejects\<close>

definition settable :: "flag_kind \<Rightarrow> string \<Rightarrow> bool" where
  "settable k value = (case k of
     StringFlag \<Rightarrow> True | IntFlag \<Rightarrow> ParseInt 0 value \<noteq> None | BoolFlag \<Rightarrow> ParseBool value \<noteq> None)"

definition rejected :: "string \<Rightarrow> string list \<Rightarrow> bool" where
  \<comment> \<open>the argument \<open>s\<close>, followed by \<open>args\<close>, is a flag in bad syntax, an unknown flag, or a flag
    whose value is missing or malformed\<close>
  "rejected s args = (case classify s of
     NoFlag \<Rightarrow> False
   | BadSyntax \<Rightarrow> True
   | FlagArg name value \<Rightarrow>
       (case (formal name, value) of
          (None, _) \<Rightarrow> True
        | (Some k, Some v) \<Rightarrow> \<not> settable k v
        | (Some k, None) \<Rightarrow> k \<noteq> BoolFlag \<and> (args = [] \<or> \<not> settable k (hd args))))"

lemma set_flag_None: "set_flag k name v fl = None \<longleftrightarrow> \<not> settable k v"
  by (simp add: set_flag_def settable_def split: flag_kind.split)

lemma flag_loop_rejected:
  assumes "rejected s args"
  shows "flag_loop (s # args) fl = ParseError"
proof (cases "classify s")
  case (FlagArg name val)
  have bad: "set_flag k name v fl = None" if "\<not> settable k v" for k v
    using that by (simp add: set_flag_None)
  show ?thesis
  proof (cases "formal name")
    case None
    with FlagArg show ?thesis by simp
  next
    case (Some k)
    with FlagArg assms show ?thesis
      by (cases k; cases val; cases args) (auto simp: rejected_def bad)
  qed
qed (use assms in \<open>simp_all add: rejected_def\<close>)

lemma flag_Parse_rejected:
  assumes "list_all (\<lambda>x. setting_ok (fst (snd x)) (snd (snd x))) xs" and "rejected s args"
  shows "flag_Parse (concat (map spell xs) @ s # args) = ParseError"
  unfolding flag_Parse_def flag_loop_spelled [OF assms(1)] by (rule flag_loop_rejected [OF assms(2)])

end
