(* ===== verification/Startup.thy ===== *)
theory Startup
  imports Engine_Loop Command_Line
begin

text \<open>
  Start-up and shut-down (\<open>cmd/ipv4-relay/main.go\<close>, \<open>StartNetlinkMonitor\<close> of
  \<open>internal/relay/netlink.go\<close>).

  \<open>main\<close> is a function from \<open>os.Args[1:]\<close> and from the answers of the system to an outcome: the
  process exits with a code, or it serves, from an initial state with a first \<open>Reload\<close> posted. The
  goroutines it starts, the netlink reader and the signal handler, are functions from what their
  channels deliver to the events they post. The notes printed on the way are left out.
\<close>

record system =
  sys_socket :: "errno option"
  sys_syslog :: "string option"
  sys_linkSubscribe :: "errno option"
  sys_addrSubscribe :: "errno option"
  sys_neighSubscribe :: "errno option"
  sys_routeSubscribe :: "errno option"

definition ipv4Enabled :: "system \<Rightarrow> bool" where
  "ipv4Enabled sys = (case sys_socket sys of Some e \<Rightarrow> False | None \<Rightarrow> True)"

fun subscribe_all :: "errno option list \<Rightarrow> errno option" where
  \<comment> \<open>the first error wins\<close>
  "subscribe_all [] = None"
| "subscribe_all (Some e # rs) = Some e"
| "subscribe_all (None # rs) = subscribe_all rs"

lemma subscribe_all_None: "subscribe_all rs = None \<longleftrightarrow> list_all (\<lambda>r. r = None) rs"
  by (induction rs rule: subscribe_all.induct) auto

definition StartNetlinkMonitor :: "system \<Rightarrow> state \<Rightarrow> errno option \<times> state" where
  "StartNetlinkMonitor sys s =
     (case subscribe_all [sys_linkSubscribe sys, sys_addrSubscribe sys, sys_neighSubscribe sys,
             sys_routeSubscribe sys] of
        Some e \<Rightarrow> (Some e, s)
      | None \<Rightarrow> (None, s\<lparr>mirrorSweepDone := True\<rparr>))"

text \<open>The package variables before \<open>main\<close> runs.\<close>

definition package_state :: state where
  "package_state = (initial_state LogWarning)\<lparr>mirrorSweepDone := False\<rparr>"

datatype outcome = Exit int | Blocks | Serve Config log_dest "state \<times> event list"

definition printUsage :: "int \<Rightarrow> outcome" where
  "printUsage exitCode = Exit exitCode"

definition main :: "string list \<Rightarrow> system \<Rightarrow> outcome" where
  \<comment> \<open>the first argument is \<open>os.Args[1:]\<close>; \<open>flag.Usage\<close> is \<open>printUsage\<close> with code 0\<close>
  "main args sys =
     (if args = [] then printUsage 1
      else case flag_Parse args of
        ParseError \<Rightarrow> printUsage 0
      | Parsed fl \<Rightarrow>
          if f_v fl then Exit 0
          else if f_h fl then printUsage 0
          else
            (let s1 = (case f_l fl of Some l \<Rightarrow> SetLogLevel l package_state | None \<Rightarrow> package_state);
                 dest = snd (SetLogSyslog (\<not> f_f fl) (sys_syslog sys) initial_dest)
             in if f_c fl = '''' then Exit 2
                else if \<not> ipv4Enabled sys then Exit 4
                else (case StartNetlinkMonitor sys s1 of
                        (Some e, s2) \<Rightarrow> Exit 4
                      | (None, s2) \<Rightarrow>
                          (case Post ReloadEvent NewEngine of
                             None \<Rightarrow> Blocks
                           | Some q \<Rightarrow>
                               Serve \<lparr>ConfigFile = f_c fl, LogLevelCmdline = (f_l fl \<noteq> None)\<rparr> dest (s2, q)))))"

section \<open>The goroutines main starts\<close>

text \<open>
  The netlink reader: each turn of its \<open>select\<close> takes one update from one of the four channels
  (\<open>None\<close> when that channel is closed) or sees \<open>done\<close> closed. The result is what it posts.
\<close>

datatype monitor_turn =
    FromLinkCh "LinkUpdate option"
  | FromAddrCh "AddrUpdate option"
  | FromNeighCh "NeighUpdate option"
  | FromRouteCh "RouteUpdate option"
  | FromDone

definition monitor_event :: "monitor_turn \<Rightarrow> event option" where
  \<comment> \<open>one turn; \<open>None\<close> when the goroutine returns\<close>
  "monitor_event t = (case t of
     FromLinkCh u \<Rightarrow> map_option LinkEvent u
   | FromAddrCh u \<Rightarrow> map_option AddrEvent u
   | FromNeighCh u \<Rightarrow> map_option NeighEvent u
   | FromRouteCh u \<Rightarrow> map_option RouteEvent u
   | FromDone \<Rightarrow> None)"

fun netlink_reader :: "monitor_turn list \<Rightarrow> event list" where
  "netlink_reader [] = []"
| "netlink_reader (t # ts) = (case monitor_event t of
     None \<Rightarrow> []
   | Some e \<Rightarrow> e # netlink_reader ts)"

text \<open>The signal handler: what it posts for the signals it receives, and whether it ends the process.\<close>

datatype signal = SIGHUP | SIGINT | SIGTERM

datatype signal_action = PostReload | ExitZero

fun handle_signal :: "signal \<Rightarrow> signal_action" where
  "handle_signal SIGHUP = PostReload"
| "handle_signal SIGINT = ExitZero"
| "handle_signal SIGTERM = ExitZero"

fun signal_loop :: "signal list \<Rightarrow> event list \<times> bool" where
  "signal_loop [] = ([], False)"
| "signal_loop (sig # sigs) = (case handle_signal sig of
     PostReload \<Rightarrow> (case signal_loop sigs of (es, exits) \<Rightarrow> (ReloadEvent # es, exits))
   | ExitZero \<Rightarrow> ([], True))"

text \<open>
  The reader forwards every update up to the first closed channel, in the order \<open>select\<close> delivers
  them; the signal handler posts one reload per hang-up before the first terminating signal. Both
  post only events that the rule \<open>post\<close> of the engine admits.
\<close>

lemma netlink_reader_forwards:
  "netlink_reader ts = map (the \<circ> monitor_event) (takeWhile (\<lambda>t. monitor_event t \<noteq> None) ts)"
  by (induction ts) (auto split: option.split)

lemma netlink_reader_external: "list_all external (netlink_reader ts)"
proof (induction ts)
  case (Cons t ts)
  then show ?case
    by (cases t) (auto simp: monitor_event_def external_def split: option.split)
qed simp

lemma signal_loop_reloads:
  "signal_loop sigs = (replicate (length (takeWhile ((=) SIGHUP) sigs)) ReloadEvent,
     \<exists>sig \<in> set sigs. sig \<noteq> SIGHUP)"
proof (induction sigs)
  case (Cons sig sigs)
  then show ?case by (cases sig) auto
qed simp

lemma signal_loop_external: "list_all external (fst (signal_loop sigs))"
  by (simp add: signal_loop_reloads external_def list_all_iff)

text \<open>
  The clock reading of \<open>internal/relay/common.go\<close>, which the program defines and does not use. The
  argument is \<open>unix.ClockGettime\<close>, reduced to the seconds of its result.
\<close>

datatype clock = CLOCK_MONOTONIC_COARSE | CLOCK_MONOTONIC

definition nowMono :: "(clock \<Rightarrow> errno + int) \<Rightarrow> int" where
  "nowMono ClockGettime = (case ClockGettime CLOCK_MONOTONIC_COARSE of
     Inr sec \<Rightarrow> sec
   | Inl e \<Rightarrow> (case ClockGettime CLOCK_MONOTONIC of Inr sec \<Rightarrow> sec | Inl e \<Rightarrow> 0))"

section \<open>How a run starts\<close>

lemma Serve_state:
  assumes "main args sys = Serve cfg dest d"
  shows "\<exists>fl level. flag_Parse args = Parsed fl \<and> d = (initial_state level, [ReloadEvent]) \<and>
    level = (case f_l fl of Some l \<Rightarrow> l mod 8 | None \<Rightarrow> 4) \<and>
    cfg = \<lparr>ConfigFile = f_c fl, LogLevelCmdline = (f_l fl \<noteq> None)\<rparr> \<and> f_c fl \<noteq> ''''"
  using assms
  by (auto simp: main_def printUsage_def Let_def StartNetlinkMonitor_def package_state_def initial_state_def
      SetLogLevel_def Post_def and_7_mod split: if_splits parsed_flags.splits option.splits prod.splits)

lemma Serve_reachable:
  assumes "main args sys = Serve cfg dest d"
  shows "reachable E unm cfg d"
proof -
  obtain level where d: "d = (initial_state level, [ReloadEvent])" and l: "0 \<le> level" "level < 8"
    using Serve_state [OF assms] by (auto split: option.splits)
  have "engine_step E unm cfg (initial_state level, []) (initial_state level, [ReloadEvent])"
    by (rule engine_step.post [where e = ReloadEvent]) (simp_all add: external_def Post_def)
  then show ?thesis
    unfolding d by (rule reachable.steps [OF reachable.started [OF l]])
qed

lemma main_exit_codes: "main args sys = Exit c \<Longrightarrow> c \<in> {0, 1, 2, 4}"
  by (auto simp: main_def printUsage_def Let_def Post_def
      split: if_splits parsed_flags.splits option.splits prod.splits)

definition system_ok :: "system \<Rightarrow> bool" where
  "system_ok sys \<longleftrightarrow> sys_socket sys = None \<and> sys_linkSubscribe sys = None \<and> sys_addrSubscribe sys = None \<and>
     sys_neighSubscribe sys = None \<and> sys_routeSubscribe sys = None"

lemma main_parsed:
  assumes "args \<noteq> []" and "flag_Parse args = Parsed fl" and "\<not> f_v fl" and "\<not> f_h fl"
  shows "f_c fl = '''' \<Longrightarrow> main args sys = Exit 2"
    and "f_c fl \<noteq> '''' \<Longrightarrow> \<not> system_ok sys \<Longrightarrow> main args sys = Exit 4"
    and "f_c fl \<noteq> '''' \<Longrightarrow> system_ok sys \<Longrightarrow> \<exists>dest d. main args sys =
      Serve \<lparr>ConfigFile = f_c fl, LogLevelCmdline = (f_l fl \<noteq> None)\<rparr> dest d"
  using assms
  by (auto simp: main_def system_ok_def ipv4Enabled_def StartNetlinkMonitor_def subscribe_all_None Post_def Let_def
      split: option.split)

text \<open>C39: How a run starts, from the words of the command line: when the arguments are well-formed
  settings in any spelling, \<open>-v\<close> and \<open>-h\<close> exit with 0, no configuration file with 2, a system without
  IPv4 or without one of the four subscriptions with 4; otherwise the daemon serves with the file
  and the level the last settings name (the level reduced to its low three bits, 4 without \<open>-l\<close>),
  the file's level overridden exactly if \<open>-l\<close> was given, from a reachable state of the engine with the
  first reload queued.\<close>
theorem main_outcome:
  assumes "xs \<noteq> []" and "list_all (\<lambda>x. setting_ok (fst (snd x)) (snd (snd x))) xs" and "ends_flags rest"
    and "fl = fold (assign \<circ> snd \<circ> snd) xs default_flags"
    and "args = concat (map spell xs) @ rest"
  shows "if f_v fl \<or> f_h fl then main args sys = Exit 0
     else if f_c fl = '''' then main args sys = Exit 2
     else if \<not> system_ok sys then main args sys = Exit 4
     else (\<exists>dest level cfg d. main args sys = Serve cfg dest d \<and>
       cfg = \<lparr>ConfigFile = f_c fl, LogLevelCmdline = (f_l fl \<noteq> None)\<rparr> \<and>
       d = (initial_state level, [ReloadEvent]) \<and>
       level = (case f_l fl of Some l \<Rightarrow> l mod 8 | None \<Rightarrow> 4) \<and> (\<forall>E unm. reachable E unm cfg d))"
proof -
  have "spell x \<noteq> []" for x
    by (auto simp: spell_def Let_def split: prod.split setting.split)
  then have args: "args \<noteq> []"
    using assms(1,5) by (cases xs) auto
  have p: "flag_Parse args = Parsed fl"
    using flag_Parse_spelled [OF assms(2,3)] assms(4,5) by simp
  consider "f_v fl \<or> f_h fl" | "\<not> f_v fl" "\<not> f_h fl" "f_c fl = '''' \<or> \<not> system_ok sys"
    | "\<not> f_v fl" "\<not> f_h fl" "f_c fl \<noteq> ''''" "system_ok sys" by blast
  then show ?thesis
  proof cases
    case 1
    then show ?thesis using args p by (auto simp: main_def printUsage_def)
  next
    case 2
    then show ?thesis using main_parsed(1,2) [OF args p] by auto
  next
    case 3
    then obtain dest d where m: "main args sys =
        Serve \<lparr>ConfigFile = f_c fl, LogLevelCmdline = (f_l fl \<noteq> None)\<rparr> dest d"
      using main_parsed(3) [OF args p] by blast
    from Serve_state [OF m] p Serve_reachable [OF m] m 3 show ?thesis by auto
  qed
qed

definition sample_system :: system where
  "sample_system = \<lparr>sys_socket = None, sys_syslog = None, sys_linkSubscribe = None, sys_addrSubscribe = None,
     sys_neighSubscribe = None, sys_routeSubscribe = None\<rparr>"

lemma main_outcome_witness:
  "\<exists>dest. main [''-c'', ''c.json'', ''--l=15'', ''-f'', ''-v=false'', ''--'', ''-x''] sample_system =
     Serve \<lparr>ConfigFile = ''c.json'', LogLevelCmdline = True\<rparr> dest (initial_state 7, [ReloadEvent])"
proof -
  let ?xs = "[(False, False, SetC ''c.json''), (True, True, SetL 15),
      (False, False, SetBool CHR ''f'' True), (False, True, SetBool CHR ''v'' False)]"
  have "concat (map spell ?xs) @ [''--'', ''-x''] =
      [''-c'', ''c.json'', ''--l=15'', ''-f'', ''-v=false'', ''--'', ''-x'']"
    and "ends_flags [''--'', ''-x'']"
    by code_simp+
  then show ?thesis
    using main_outcome [OF _ _ _ refl refl, of ?xs "[''--'', ''-x'']" sample_system]
    by (simp add: setting_ok_def assign_def set_bool_def default_flags_def sample_system_def system_ok_def)
qed

text \<open>C40: A command line with an unknown flag, with bad flag syntax, or with a flag whose value is
  missing or malformed, makes the daemon exit with code 0, whatever well-formed settings stand
  before it.\<close>
theorem bad_flag_exits_zero:
  assumes "list_all (\<lambda>x. setting_ok (fst (snd x)) (snd (snd x))) xs" and "rejected s rest"
  shows "main (concat (map spell xs) @ s # rest) sys = Exit 0"
  using flag_Parse_rejected [OF assms] by (simp add: main_def printUsage_def)

lemma bad_flag_exits_zero_witness: "main [''-c'', ''c.json'', ''-l'', ''warning''] sample_system = Exit 0"
proof -
  have "concat (map spell [(False, False, SetC ''c.json'')]) = [''-c'', ''c.json'']" and "rejected ''-l'' [''warning'']"
    by code_simp+
  then show ?thesis
    using bad_flag_exits_zero [of "[(False, False, SetC ''c.json'')]" "''-l''" "[''warning'']"]
    by (simp add: setting_ok_def)
qed

end
