(* ===== verification/Mirror_Gaps.thy ===== *)
theory Mirror_Gaps
  imports Socket_Lifetime
begin

text \<open>
  Which operations ask for proxy entries. Setting up and tearing down services, reading addresses
  and reading the configuration make no request about proxy entries or host routes at all
  (\<open>quiet_op\<close>), and forgetting clients only withdraws them. So neither \<open>Reload\<close> nor a link event
  ever installs a proxy entry, also when it brings a master into play the clients of the table are not
  mirrored on yet.
\<close>

definition same_requests :: "state \<Rightarrow> state \<Rightarrow> bool" where
  "same_requests s t \<longleftrightarrow> proxies (trace t) = proxies (trace s) \<and> routes (trace t) = routes (trace s)"

definition fewer_proxies :: "state \<Rightarrow> state \<Rightarrow> bool" where
  "fewer_proxies s t \<longleftrightarrow> proxies (trace t) \<subseteq> proxies (trace s)"

fun about_mirror :: "call \<Rightarrow> bool" where
  "about_mirror (NeighSet n) = True"
| "about_mirror (NeighDel n) = True"
| "about_mirror (RouteReplace r) = True"
| "about_mirror (RouteDel r) = True"
| "about_mirror c = False"

lemma fewer_proxies_refl: "fewer_proxies s s"
  by (simp add: fewer_proxies_def)

lemma fewer_proxies_trans: "fewer_proxies s t \<Longrightarrow> fewer_proxies t u \<Longrightarrow> fewer_proxies s u"
  by (auto simp: fewer_proxies_def)

lemma fewer_proxies_same_trace: "trace t = trace s \<Longrightarrow> fewer_proxies s t"
  by (simp add: fewer_proxies_def)

lemma fewer_proxies_fold: "(\<And>x s. fewer_proxies s (f x s)) \<Longrightarrow> fewer_proxies s (fold f xs s)"
  by (rule fold_invariant [where I = "fewer_proxies s"])
    (auto intro: fewer_proxies_trans fewer_proxies_refl)

lemma issue_requests: "\<not> about_mirror c \<Longrightarrow> same_requests s (issue c s)"
  by (cases c) (simp_all add: same_requests_def)

locale quiet_op =
  fixes f :: "state \<Rightarrow> state"
  assumes quiet: "same_requests s (f s)"
begin

lemma proxies_kept [simp]: "proxies (trace (f s)) = proxies (trace s)"
  using quiet [of s] by (simp add: same_requests_def)

lemma routes_kept [simp]: "routes (trace (f s)) = routes (trace s)"
  using quiet [of s] by (simp add: same_requests_def)

lemma extend_fewer: "fewer_proxies s t \<Longrightarrow> fewer_proxies s (f t)"
  by (simp add: fewer_proxies_def)

end

lemma quiet_opI:
  "(\<And>s. proxies (trace (f s)) = proxies (trace s)) \<Longrightarrow> (\<And>s. routes (trace (f s)) = routes (trace s)) \<Longrightarrow> quiet_op f"
  by unfold_locales (simp add: same_requests_def)

section \<open>The operations that make no such request\<close>

interpretation arpSetup_quiet: quiet_op "\<lambda>s. snd (arpSetup E r b s)" for E r b
  by (rule quiet_opI) (simp_all add: arpSetup_def)

lemma run_calls_requests:
  "\<forall>c \<in> set cs. \<not> about_mirror c \<Longrightarrow> same_requests s (snd (run_calls E cs s))"
proof (induction cs arbitrary: s)
  case Nil
  then show ?case by (simp add: same_requests_def)
next
  case (Cons c cs)
  then have "same_requests s (issue c s)" "same_requests (issue c s) (snd (run_calls E cs (issue c s)))"
    by (simp_all add: issue_requests)
  then show ?case
    by (auto simp: perform_def same_requests_def split: option.split)
qed

interpretation socket_setup_quiet: quiet_op "\<lambda>s. snd (run_calls E (socket_setup fd n p) s)" for E fd n p
  by unfold_locales (rule run_calls_requests, simp add: socket_setup_def)

interpretation closeFD_quiet: quiet_op "closeFD fd" for fd
  by (rule quiet_opI) (simp_all add: closeFD_def)

interpretation new_sock_quiet: quiet_op "\<lambda>s. snd (new_sock r fd s)" for r fd
  by (rule quiet_opI) (simp_all add: new_sock_def Let_def)

interpretation openDHCPSocket_quiet: quiet_op "\<lambda>s. snd (openDHCPSocket E r p s)" for E r p
proof
  fix s
  have run: "same_requests s (snd (run_calls E (socket_setup fd n p) (issue Socket s)))" for fd n
    by (simp add: same_requests_def)
  show "same_requests s (snd (openDHCPSocket E r p s))"
  proof (cases "ans_socket E (trace s)")
    case (Inr fd)
    obtain res u where u: "run_calls E (socket_setup fd (Ifname (heap s r)) p) (issue Socket s) = (res, u)"
      by fastforce
    with run [of fd "Ifname (heap s r)"] have "same_requests s u"
      by simp
    moreover obtain ds v where v: "new_sock r fd u = (ds, v)"
      by fastforce
    ultimately show ?thesis
      using Inr u closeFD_quiet.quiet [of u fd] new_sock_quiet.quiet [of u r fd]
      by (cases res) (simp_all add: openDHCPSocket_def Let_def same_requests_def)
  qed (simp add: openDHCPSocket_def same_requests_def)
qed

interpretation teardown_quiet: quiet_op "teardown r" for r
proof (rule quiet_opI)
  have "quiet_op (close_sock ds)" for ds
    by (rule quiet_opI) (simp_all add: close_sock_def)
  then have "proxies (trace (fold close_sock dss s)) = proxies (trace s) \<and>
      routes (trace (fold close_sock dss s)) = routes (trace s)" for dss s
    by (induction dss arbitrary: s) (simp_all add: quiet_op.proxies_kept quiet_op.routes_kept)
  then show "proxies (trace (teardown r s)) = proxies (trace s)" "routes (trace (teardown r s)) = routes (trace s)" for s
    by (simp_all add: teardown_def)
qed

interpretation append_sock_quiet: quiet_op "append_sock r ds" for r ds
  by (rule quiet_opI) (simp_all add: append_sock_def)

interpretation dhcpv4Setup_quiet: quiet_op "\<lambda>s. snd (dhcpv4Setup E r b s)" for E r b
proof
  fix s
  show "same_requests s (snd (dhcpv4Setup E r b s))"
  proof (cases "b \<and> DHCPv4 (heap s r) \<noteq> ModeDisabled")
    case False
    then show ?thesis by (simp add: dhcpv4Setup_off same_requests_def)
  next
    case True
    obtain res t where o1: "openDHCPSocket E r dhcpv4ServerPort (teardown r s) = (res, t)" by fastforce
    have "same_requests (teardown r s) t"
      using openDHCPSocket_quiet.quiet [where s = "teardown r s"] o1 by (metis snd_conv)
    then have t: "same_requests s t"
      by (simp add: same_requests_def)
    show ?thesis
    proof (cases res)
      case (Inl e)
      with True o1 t show ?thesis
        by (simp add: dhcpv4Setup_on)
    next
      case (Inr ds)
      obtain res' u where o2: "openDHCPSocket E r dhcpv4ClientPort (append_sock r ds t) = (res', u)" by fastforce
      have "same_requests (append_sock r ds t) u"
        using openDHCPSocket_quiet.quiet [where s = "append_sock r ds t"] o2 by (metis snd_conv)
      then have u: "same_requests s u"
        using t by (simp add: same_requests_def)
      with True o1 o2 Inr t show ?thesis
        by (cases res') (simp_all add: dhcpv4Setup_on same_requests_def)
    qed
  qed
qed

interpretation disableServices_quiet: quiet_op "disableServices E r" for E r
  by (rule quiet_opI) (simp_all add: disableServices_def)

interpretation reloadServices_quiet: quiet_op "reloadServices E r" for E r
  by (rule quiet_opI) (simp_all add: reloadServices_def Let_def)

interpretation closeInterface_quiet: quiet_op "closeInterface E r" for E r
  by (rule quiet_opI) (simp_all add: closeInterface_def Let_def)

interpretation refresh_quiet: quiet_op "refreshInterfaceAddresses E r" for E r
proof (rule quiet_opI)
  have "trace (refreshInterfaceAddresses E r s) = trace (snd (fetchAddr4 E (Ifindex (heap s r)) s))" for s
    by (simp add: refreshInterfaceAddresses_def case_prod_beta)
  moreover have "same_requests s (snd (fetchAddr4 E i s))" for i s
    by (simp add: fetchAddr4_def same_requests_def Let_def split: sum.split)
  ultimately show "proxies (trace (refreshInterfaceAddresses E r s)) = proxies (trace s)"
    "routes (trace (refreshInterfaceAddresses E r s)) = routes (trace s)" for s
    by (simp_all add: same_requests_def)
qed

section \<open>Link events and reloads\<close>

lemma clearMirroredState_fewer: "fewer_proxies s t \<Longrightarrow> fewer_proxies s (clearMirroredState E r t)"
  by (auto simp: fewer_proxies_def clearMirroredState_proxies)

lemma set_iface_fewer: "fewer_proxies s t \<Longrightarrow> fewer_proxies s (set_iface r f t)"
  by (simp add: fewer_proxies_def)

lemmas fewer_ops = set_iface_fewer clearMirroredState_fewer disableServices_quiet.extend_fewer
  reloadServices_quiet.extend_fewer refresh_quiet.extend_fewer closeInterface_quiet.extend_fewer

lemma handleLinkEvent_fewer: "fewer_proxies s (handleLinkEvent E u s)"
  by (auto simp: handleLinkEvent_def Let_def fewer_proxies_refl split: option.split intro!: fewer_ops)

lemma parse_fewer: "fewer_proxies s (snd (parseInterfaceJSON E name obj s))"
proof -
  obtain r t where f: "findOrCreateInterface name s = (r, t)" by fastforce
  then have "trace t = trace s"
    by (auto simp: findOrCreateInterface_def setInterfaceDefaults_def Let_def split: option.splits)
  then have t: "fewer_proxies s t" "fewer_proxies s (issue (LinkByName n) t)" for n
    by (simp_all add: fewer_proxies_def)
  show ?thesis
    using t by (auto simp: parseInterfaceJSON_def f Let_def adoptLink_def
        split: option.split sum.split intro!: fewer_ops)
qed

lemma applyGlobal_trace [simp]: "trace (applyGlobal cfg root s) = trace s"
  by (auto simp: applyGlobal_def Let_def split: option.split)

lemma load_fewer: "fewer_proxies s (loadConfigJSON E unm cfg s)"
proof -
  have "fewer_proxies s (parsed E objs s)" for s objs
    unfolding parsed_def by (rule fewer_proxies_fold) (simp add: case_prod_beta parse_fewer)
  then have p: "fewer_proxies t (parsed E objs t)" for t objs
    by blast
  have i: "fewer_proxies s (issue (ReadFile p) s)" "fewer_proxies s (applyGlobal cfg root (issue (ReadFile p) s))"
    for root p
    by (simp_all add: fewer_proxies_def)
  have "fewer_proxies s (parsed E objs (applyGlobal cfg root (issue (ReadFile p) s)))" for objs root p
    by (rule fewer_proxies_trans [OF i(2) p])
  with i show ?thesis
    unfolding loadConfigJSON_eq by (simp split: option.split)
qed

lemma plan_of_trace: "trace (plan_of s) = trace s"
  by (simp add: plan_of_def Let_def scheduleMirrorSweep_def startMirrorSweep_def)

lemma Reload_fewer: "fewer_proxies s (Reload E unm cfg s)"
proof -
  have "trace (fold resetIface rs s) = trace s" for rs s
    by (simp add: resetIface_alt [abs_def])
  then have "fewer_proxies s (loaded E unm cfg s)"
    using load_fewer [of "fold resetIface (iface_refs s) s" E unm cfg] by (simp add: fewer_proxies_def)
  then have "fewer_proxies s (plan_of (loaded E unm cfg s))"
    by (simp add: fewer_proxies_def plan_of_trace)
  moreover have "fewer_proxies s (fold (applyIface E) rs s)" for rs s
    by (rule fewer_proxies_fold) (auto simp: applyIface_def intro!: fewer_ops fewer_proxies_refl)
  ultimately show ?thesis
    unfolding Reload_plan reload_plan_alt by (rule fewer_proxies_trans)
qed

text \<open>C29: A reload never asks for a proxy entry: whatever the new configuration says, every entry requested
  afterwards was requested before. In particular a master the reload adds is not given the entries of the
  clients the relay already knows.\<close>
theorem Reload_adds_no_proxy:
  "proxies (trace (Reload E unm cfg s)) \<subseteq> proxies (trace s)"
  using Reload_fewer by (simp add: fewer_proxies_def)

text \<open>C16: A relaying master that comes back under a new index loses the clients of the other interfaces: they
  stay in the table and the master relays for them, but no proxy entry is requested for them on the new
  index, and because they are in the table, later neighbour events that reconfirm them do not mirror
  them either.\<close>
theorem renumbered_master_not_mirrored:
  assumes "ifaceByIfname s (lu_Name u) = Some m" and "Master (heap s m)" and "ARP (heap s m) = ModeRelay"
    and "lu_Type u \<noteq> RTM_DELLINK" and "Ifindex (heap s m) \<noteq> lu_Index u"
    and "k \<in> set (mirroredNeighs s)" and "mk_ifindex k \<noteq> Ifindex (heap s m)" and "mk_ifindex k \<noteq> lu_Index u"
    and "(AsSlice (mk_addr k), lu_Index u) \<notin> proxies (trace s)"
    and "t = handleLinkEvent E u s"
  shows "k \<in> set (mirroredNeighs t) \<and> Ifindex (heap t m) = lu_Index u \<and>
    (\<forall>r. Ifindex (heap t r) = mk_ifindex k \<longrightarrow> relays_for t r m) \<and>
    (AsSlice (mk_addr k), lu_Index u) \<notin> proxies (trace t) \<and>
    (\<forall>v r. client_event t v r (mk_addr k) \<longrightarrow> Ifindex (heap t r) = mk_ifindex k \<longrightarrow>
       n_State (nu_Neigh v) AND NUD_FAILED = 0 \<longrightarrow> handleNeighEvent E v t = t)"
proof -
  let ?c = "clearMirroredState E m (disableServices E m s)"
  have t: "handleLinkEvent E u s = reloadServices E m (refreshInterfaceAddresses E m
      (set_iface m (\<lambda>i. i\<lparr>Ifindex := lu_Index u, Running := lu_Flags u AND IFF_RUNNING \<noteq> 0\<rparr>) ?c))"
    using assms(1,4,5) by (simp add: handleLinkEvent_def Let_def)
  have "Ifindex (heap t m) = lu_Index u" "k \<in> set (mirroredNeighs t)" "Master (heap t m)" "ARP (heap t m) = ModeRelay"
    using assms(2,3,6,7) unfolding assms(10) t by (simp_all add: clearMirroredState_keys)
  moreover have "(AsSlice (mk_addr k), lu_Index u) \<notin> proxies (trace t)"
    using handleLinkEvent_fewer [of s E u] assms(9,10) by (auto simp: fewer_proxies_def)
  moreover have "handleNeighEvent E v t = t"
    if "client_event t v r (mk_addr k)" "Ifindex (heap t r) = mk_ifindex k" "n_State (nu_Neigh v) AND NUD_FAILED = 0"
    for v r
  proof -
    have "key_of t (mk_addr k) r = k"
      using that(2) by simp
    then show ?thesis
      using neigh_transitions(4) [OF that(1,3), of E] \<open>k \<in> set (mirroredNeighs t)\<close> by simp
  qed
  ultimately show ?thesis
    using assms(8) by (auto simp: relays_for_def)
qed

lemma renumbered_master_not_mirrored_witness:
  "\<exists>t. handleLinkEvent quiet_env \<lparr>lu_Type = 16, lu_Index = 9, lu_Flags = IFF_RUNNING, lu_Name = ''eth0''\<rparr>
      (sample_state\<lparr>mirroredNeighs := [\<lparr>mk_addr = sample_client, mk_ifindex = 2\<rparr>],
         trace := [NeighSet (neigh4 sample_client 3 0 NTF_PROXY [])]\<rparr>) = t \<and>
    \<lparr>mk_addr = sample_client, mk_ifindex = 2\<rparr> \<in> set (mirroredNeighs t) \<and>
    (AsSlice sample_client, 9) \<notin> proxies (trace t)"
proof -
  let ?s = "sample_state\<lparr>mirroredNeighs := [\<lparr>mk_addr = sample_client, mk_ifindex = 2\<rparr>],
         trace := [NeighSet (neigh4 sample_client 3 0 NTF_PROXY [])]\<rparr>"
  let ?u = "\<lparr>lu_Type = 16, lu_Index = 9, lu_Flags = IFF_RUNNING, lu_Name = ''eth0''\<rparr>"
  let ?k = "\<lparr>mk_addr = sample_client, mk_ifindex = 2\<rparr>"
  have a: "ifaceByIfname ?s (lu_Name ?u) = Some 1" "Master (heap ?s 1)" "ARP (heap ?s 1) = ModeRelay"
    by (simp_all add: ifaceByIfname_def iface_refs_def)
  have b: "lu_Type ?u \<noteq> RTM_DELLINK" "Ifindex (heap ?s 1) \<noteq> lu_Index ?u" "?k \<in> set (mirroredNeighs ?s)"
    "mk_ifindex ?k \<noteq> Ifindex (heap ?s 1)" "mk_ifindex ?k \<noteq> lu_Index ?u"
    by simp_all
  have c: "(AsSlice (mk_addr ?k), lu_Index ?u) \<notin> proxies (trace ?s)"
    by (simp add: proxies_def neigh4_def)
  have "?k \<in> set (mirroredNeighs (handleLinkEvent quiet_env ?u ?s))"
    "(AsSlice (mk_addr ?k), lu_Index ?u) \<notin> proxies (trace (handleLinkEvent quiet_env ?u ?s))"
    using renumbered_master_not_mirrored [OF a b c refl, of quiet_env] by blast+
  then show ?thesis
    unfolding mirroredNeighKey.simps LinkUpdate.simps by blast
qed

end
