(* ===== verification/Engine_Types.thy ===== *)
theory Engine_Types
  imports Engine_Loop Mirror_Gaps
begin

text \<open>
  What the types of the Go program leave open and the daemon keeps to: cached addresses are IPv4
  addresses whose prefix length fits its byte, the log level is one of the eight syslog levels, and
  a reconcile timer always has the delay \<open>reconcileDebounce\<close>.
\<close>

definition addrs_typed :: "Interface \<Rightarrow> bool" where
  "addrs_typed i \<longleftrightarrow> list_all (\<lambda>a. Is4 (ip_Addr a) \<and> ip_PrefixLen a < 256) (Addr4s i)"

definition typed :: "state \<Rightarrow> bool" where
  "typed s \<longleftrightarrow> (\<forall>r. addrs_typed (heap s r)) \<and> 0 \<le> logLevel s \<and> logLevel s < 8 \<and>
     (\<forall>(d, t) \<in> set (timers s). t = ReconcileTimer \<longrightarrow> d = reconcileDebounce)"

lemma typed_cong:
  "(\<And>r. Addr4s (heap t r) = Addr4s (heap s r)) \<Longrightarrow> logLevel t = logLevel s \<Longrightarrow> timers t = timers s \<Longrightarrow>
   typed s \<Longrightarrow> typed t"
  by (simp add: typed_def addrs_typed_def)

lemma typed_mirror: "mirror_step P s t \<Longrightarrow> typed s \<Longrightarrow> typed t"
  by (rule typed_cong [of t s]) (simp_all add: mirror_step_frame)

lemma typed_set_iface:
  "typed s \<Longrightarrow> (\<And>i. addrs_typed i \<Longrightarrow> addrs_typed (f i)) \<Longrightarrow> typed (set_iface r f s)"
  by (simp add: typed_def)

lemma fetched_typed: "\<forall>a \<in> set (fst (fetchAddr4 E i s)). Is4 (ip_Addr a) \<and> ip_PrefixLen a < 256"
proof -
  have "ip_PrefixLen a < 256" if "a \<in> set (addr4_of n)" for a n
    using that by (auto simp: addr4_of_def split: prod.splits if_splits)
  then show ?thesis
    using addr4_of_Is4 by (auto simp: fetchAddr4_def Let_def split: sum.split)
qed

lemma typed_refresh: "typed s \<Longrightarrow> typed (refreshInterfaceAddresses E r s)"
proof -
  assume s: "typed s"
  have "typed (snd (fetchAddr4 E (Ifindex (heap s r)) s))"
    by (rule typed_cong [OF _ _ _ s]) simp_all
  then show ?thesis
    unfolding refreshInterfaceAddresses_def case_prod_beta
    by (rule typed_set_iface) (use fetched_typed in \<open>simp add: addrs_typed_def list_all_iff\<close>)
qed

lemma typed_services:
  "typed s \<Longrightarrow> typed (reloadServices E r s)" "typed s \<Longrightarrow> typed (disableServices E r s)"
  "typed s \<Longrightarrow> typed (clearMirroredState E r s)" "typed s \<Longrightarrow> typed (issue c s)"
  by (rule typed_cong [of _ s]; simp)+

lemma typed_close: "typed s \<Longrightarrow> typed (closeInterface E r s)"
  by (rule typed_cong [of _ s]) (simp_all add: closeInterface_def Let_def)

lemma typed_link: "typed s \<Longrightarrow> typed (handleLinkEvent E u s)"
  by (auto simp: handleLinkEvent_def Let_def split: option.split
      intro!: typed_services typed_refresh typed_set_iface) (simp_all add: addrs_typed_def)

lemma typed_find: "typed s \<Longrightarrow> typed (snd (findOrCreateInterface name s))"
  by (auto simp: findOrCreateInterface_def setInterfaceDefaults_def typed_def addrs_typed_def
      new_Interface_def Let_def split: option.split)

lemma typed_parse:
  assumes "typed s"
  shows "typed (snd (parseInterfaceJSON E name obj s))"
proof -
  obtain r t where f: "findOrCreateInterface name s = (r, t)" by fastforce
  then have t: "typed t"
    using typed_find [OF assms, of name] by simp
  show ?thesis
    using t by (auto simp: parseInterfaceJSON_def f Let_def adoptLink_def split: option.split sum.split
        intro!: typed_set_iface typed_refresh typed_services)
      (simp_all add: addrs_typed_def configureIface_def)
qed

lemma typed_load: "typed s \<Longrightarrow> typed (loadConfigJSON E unm cfg s)"
proof -
  assume s: "typed s"
  have "typed (applyGlobal cfg root (issue c s))" for root c
    using s by (auto simp: applyGlobal_def Let_def typed_def split: option.split)
  then have "typed (parsed E objs (applyGlobal cfg root (issue c s)))" for objs root c
    unfolding parsed_def
    by (intro fold_invariant [where I = typed]) (simp_all add: case_prod_beta typed_parse)
  then show ?thesis
    unfolding loadConfigJSON_eq using typed_services(4) [OF s] by (simp split: option.split)
qed

lemma typed_Reload: "typed s \<Longrightarrow> typed (Reload E unm cfg s)"
proof -
  assume "typed s"
  then have "typed (fold resetIface rs s)" for rs
    by (intro fold_invariant [where I = typed])
      (auto simp: resetIface_alt addrs_typed_def intro!: typed_set_iface)
  then have "typed (loaded E unm cfg s)"
    by (rule typed_load)
  then have "typed (scheduleMirrorSweep (loaded E unm cfg s))"
    by (auto simp: scheduleMirrorSweep_def startMirrorSweep_def typed_def Let_def)
  then have "typed (plan_of (loaded E unm cfg s))"
    unfolding plan_of_def Let_def
    by (intro fold_invariant [where I = typed] typed_set_iface)
      (simp_all add: restrictMaster_def addrs_typed_def Let_def)
  then show ?thesis
    unfolding Reload_plan reload_plan_alt
    by (intro fold_invariant [where I = typed]) (simp_all add: applyIface_def typed_services typed_close)
qed

lemma typed_run_event:
  assumes "run_event E unm cfg e s = Some t" and "typed s"
  shows "typed t"
proof (cases e)
  case (DHCPEvent ds src dat)
  then show ?thesis
    using assms typed_mirror handleDHCPv4_total [of E ds src dat s] by auto
next
  case (RouteEvent u)
  then show ?thesis
    using assms by (auto simp: handleRouteEvent_def scheduleReconcile_def typed_def
        split: option.splits if_splits)
next
  case ReconcileEvent
  then have t: "t = runReconcile E s"
    using assms(1) by simp
  show ?thesis
    by (rule typed_cong [OF _ _ _ assms(2)]) (simp_all add: t runReconcile_def)
next
  case (AddrEvent u)
  then show ?thesis
    using assms by (auto simp: handleAddrEvent_def typed_refresh split: option.splits if_splits)
qed (use assms typed_link typed_Reload typed_mirror [OF sweep_step] typed_mirror [OF neigh_step] in auto)

lemma typed_step:
  assumes "engine_step E unm cfg d d'" and "typed (fst d)"
  shows "typed (fst d')"
  using assms(1)
proof (cases rule: engine_step.cases)
  case (fires t s q)
  then show ?thesis
    using assms(2)
    by (auto simp: fire_def startMirrorSweep_def Post_def typed_def Let_def
        split: timer.splits if_splits dest: set_remove1_subset [THEN subsetD])
next
  case runs
  then show ?thesis
    using assms(2) typed_run_event
    by (fastforce simp: Run1_def receive_def split: prod.splits list.splits Option.bind_splits)
qed (use assms(2) in \<open>auto simp: typed_def\<close>)

text \<open>C37: What every reachable state keeps to beyond the types of the program: each address the relay caches
  for an interface is an IPv4 address with a prefix length that fits a byte, the log level is one of
  the eight syslog levels, whatever the command line and the file say, and every pending reconcile
  timer has the two-second delay.\<close>
theorem reachable_types:
  assumes "reachable E unm cfg (s, q)"
  shows "(\<forall>r. \<forall>a \<in> set (Addr4s (heap s r)). Is4 (ip_Addr a) \<and> ip_PrefixLen a < 256) \<and>
    0 \<le> logLevel s \<and> logLevel s < 8 \<and>
    (\<forall>(d, t) \<in> set (timers s). t = ReconcileTimer \<longrightarrow> d = reconcileDebounce)"
proof -
  have "typed (fst d)" if "reachable E unm cfg d" for d
    using that
  proof (induction rule: reachable.induct)
    case (started level)
    then show ?case by (simp add: initial_state_def typed_def addrs_typed_def new_Interface_def)
  next
    case (steps d d')
    then show ?case by (simp add: typed_step)
  qed
  from this [OF assms] show ?thesis
    by (simp add: typed_def addrs_typed_def list_all_iff)
qed

lemma reachable_types_witness:
  "\<exists>s q. reachable quiet_env (\<lambda>b. Inl '''') sample_cfg (s, q) \<and> logLevel s = 4 \<and> q = [ReloadEvent] \<and>
    logLevel s < 8"
proof -
  let ?d = "(initial_state 4, [ReloadEvent])"
  have "engine_step quiet_env (\<lambda>b. Inl '''') sample_cfg (initial_state 4, []) ?d"
    by (rule engine_step.post [where e = ReloadEvent]) (simp_all add: external_def Post_def)
  moreover have "reachable quiet_env (\<lambda>b. Inl '''') sample_cfg (initial_state 4, [])"
    by (rule reachable.started) simp_all
  ultimately have r: "reachable quiet_env (\<lambda>b. Inl '''') sample_cfg ?d"
    by (rule reachable.steps [rotated])
  from reachable_types [OF r] have "logLevel (initial_state 4) < 8"
    by blast
  with r show ?thesis
    by (auto simp: initial_state_def)
qed

end
