(* ===== verification/Mirror_Consistency.thy ===== *)
theory Mirror_Consistency
  imports Mirror_Gaps Engine_Loop
begin

text \<open>
  The contract between the table of clients and what was requested of the kernel: \<open>mirror_complete\<close>
  says that every client of the table has its proxy entry requested on every relaying master other
  than its own interface, and its host route where routes are learned. A reconciliation
  establishes it from any state. Every event but a reload keeps it as long as
  no address is in the table for two interfaces (and, for the sweep, the owned host routes the kernel
  lists are where the table has their clients; and no link event renumbers a relaying master); a client that moved to another interface loses its
  entries when its old entry fails.
\<close>

definition mirrored_at :: "state \<Rightarrow> mirroredNeighKey \<Rightarrow> iref \<Rightarrow> bool" where
  \<comment> \<open>everything the client of the key needs was requested for the interface\<close>
  "mirrored_at s k r \<longleftrightarrow>
     mirror_entries s r (mk_addr k) (iface_refs s) \<subseteq> proxies (trace s) \<and>
     (LearnRoutes (heap s r) \<and> \<not> IsLinkLocalUnicast (mk_addr k) \<longrightarrow>
        (hostNet (mk_addr k), mk_ifindex k) \<in> routes (trace s))"

definition mirror_complete :: "state \<Rightarrow> bool" where
  "mirror_complete s \<longleftrightarrow> (\<forall>k \<in> set (mirroredNeighs s). \<forall>r \<in> set (iface_refs s).
     Ifindex (heap s r) = mk_ifindex k \<longrightarrow> mirrored_at s k r)"

definition one_place :: "state \<Rightarrow> bool" where
  \<comment> \<open>no address is mirrored for two interfaces\<close>
  "one_place s \<longleftrightarrow> (\<forall>k \<in> set (mirroredNeighs s). \<forall>k' \<in> set (mirroredNeighs s).
     AsSlice (mk_addr k) = AsSlice (mk_addr k') \<longrightarrow> k = k')"

definition one_learning :: "state \<Rightarrow> bool" where
  \<comment> \<open>two entries of the configuration for one device agree on learning routes\<close>
  "one_learning s \<longleftrightarrow> (\<forall>r \<in> set (iface_refs s). \<forall>r' \<in> set (iface_refs s).
     Ifindex (heap s r) = Ifindex (heap s r') \<longrightarrow> LearnRoutes (heap s r) = LearnRoutes (heap s r'))"

lemma one_learningD:
  "one_learning s \<Longrightarrow> r \<in> set (iface_refs s) \<Longrightarrow> r' \<in> set (iface_refs s) \<Longrightarrow>
   Ifindex (heap s r) = Ifindex (heap s r') \<Longrightarrow> LearnRoutes (heap s r) = LearnRoutes (heap s r')"
  unfolding one_learning_def by blast

lemma one_learning_cong:
  "heap t = heap s \<Longrightarrow> iface_refs t = iface_refs s \<Longrightarrow> one_learning t = one_learning s"
  by (simp add: one_learning_def)

lemma mirror_entries_index:
  "Ifindex (heap s r) = Ifindex (heap s r') \<Longrightarrow> mirror_entries s r = mirror_entries s r'"
  by (intro ext) (simp add: mirror_entries_def relays_for_def)

lemma mirror_entries_addr: "(x, i) \<in> mirror_entries s r a cs \<Longrightarrow> x = AsSlice a"
  by (auto simp: mirror_entries_def)

lemma mirrored_at_mono:
  assumes "mirrored_at s k r" and "heap t = heap s" and "iface_refs t = iface_refs s"
    and "proxies (trace s) \<subseteq> proxies (trace t)" and "routes (trace s) \<subseteq> routes (trace t)"
  shows "mirrored_at t k r"
  using assms(1,4,5) mirror_entries_heap [OF assms(2)] unfolding mirrored_at_def assms(2,3) by auto

lemma mirrored_at_same:
  assumes "mirrored_at s k r'" and "Ifindex (heap s r) = Ifindex (heap s r')"
    and "LearnRoutes (heap s r) = LearnRoutes (heap s r')"
  shows "mirrored_at s k r"
  using assms(1,3) mirror_entries_index [OF assms(2)] by (simp add: mirrored_at_def)

lemma mirror_complete_mono:
  assumes "mirror_complete s" and "heap t = heap s" and "iface_refs t = iface_refs s"
    and "set (mirroredNeighs t) \<subseteq> set (mirroredNeighs s)" and "proxies (trace s) \<subseteq> proxies (trace t)"
    and "routes (trace s) \<subseteq> routes (trace t)"
  shows "mirror_complete t"
  using assms(1,4) mirrored_at_mono [OF _ assms(2,3,5,6)]
  unfolding mirror_complete_def assms(2,3) by blast

section \<open>Reconciliation establishes it\<close>

lemma arpMirrorAddr_mirrors:
  "mirrored_at (arpMirrorAddr E (mk_addr k) r True s) k r \<or> Ifindex (heap s r) \<noteq> mk_ifindex k"
proof -
  let ?t = "arpMirrorAddr E (mk_addr k) r True s"
  have "mirror_entries ?t = mirror_entries s" "heap ?t = heap s" "iface_refs ?t = iface_refs s"
    using mirror_entries_heap [of ?t s] by simp_all
  then show ?thesis
    using arpMirrorAddr_requests [of E "mk_addr k" r True s] by (auto simp: mirrored_at_def)
qed

lemma reconcileKeys_mirror:
  assumes "\<forall>i. ifaceByIndex s i = ifaceByIndex u i" and "heap s = heap u" and "iface_refs s = iface_refs u"
  shows "(mirrored_at s k r \<longrightarrow> mirrored_at (fold (reconcileKey E) ks s) k r) \<and>
    (k \<in> set ks \<longrightarrow> ifaceByIndex u (mk_ifindex k) = Some r \<longrightarrow> mirrored_at (fold (reconcileKey E) ks s) k r)"
  using assms
proof (induction ks arbitrary: s)
  case (Cons k' ks)
  let ?t = "reconcileKey E k' s"
  have t: "heap ?t = heap s" "iface_refs ?t = iface_refs s" "\<forall>i. ifaceByIndex ?t i = ifaceByIndex s i"
    by (simp_all add: ifaceByIndex_def)
  have "proxies (trace s) \<subseteq> proxies (trace ?t)" "routes (trace s) \<subseteq> routes (trace ?t)"
    by (auto simp: reconcileKey_def arpMirrorAddr_requests split: option.split)
  then have keep: "mirrored_at s k r \<Longrightarrow> mirrored_at ?t k r"
    using mirrored_at_mono [OF _ t(1,2)] by blast
  have "mirrored_at ?t k r" if "k = k'" "ifaceByIndex u (mk_ifindex k) = Some r"
  proof -
    have "ifaceByIndex s (mk_ifindex k) = Some r"
      using Cons.prems(1) that(2) by simp
    moreover from this have "Ifindex (heap s r) = mk_ifindex k"
      using ifaceByIndex_SomeD by blast
    ultimately show ?thesis
      using arpMirrorAddr_mirrors [of E k r s] that(1) by (simp add: reconcileKey_def)
  qed
  then show ?case
    using Cons.IH [of ?t] Cons.prems t keep by auto
qed simp

interpretation reconcile_keys: call_op "fold (reconcileKey E) ks" for E ks
  by (rule call_op_fold [OF reconcileKey.call_op_axioms])

lemma runReconcile_complete:
  assumes "one_learning s"
  shows "mirror_complete (runReconcile E s)"
proof -
  let ?s = "s\<lparr>reconcileScheduled := False\<rparr>"
  let ?u = "fold (reconcileIface E) (iface_refs ?s) ?s"
  let ?t = "fold (reconcileKey E) (mirroredNeighs ?u) ?u"
  have t: "runReconcile E s = ?t"
    by (simp add: runReconcile_def reconcileKernelState_def Let_def)
  have frame: "heap ?t = heap ?u" "iface_refs ?t = iface_refs ?u" "mirroredNeighs ?t = mirroredNeighs ?u"
    by simp_all
  have learn: "one_learning ?t"
    using assms one_learning_cong [of ?t s] by (simp add: iface_refs_def)
  have "mirrored_at ?t k r"
    if k: "k \<in> set (mirroredNeighs ?u)" and r: "r \<in> set (iface_refs ?u)" "Ifindex (heap ?u r) = mk_ifindex k" for k r
  proof -
    obtain r' where r': "ifaceByIndex ?u (mk_ifindex k) = Some r'"
      using r ifaceByIndex_None_iff [of ?u "mk_ifindex k"] by blast
    then have i: "Ifindex (heap ?t r) = Ifindex (heap ?t r')" "r' \<in> set (iface_refs ?t)" "r \<in> set (iface_refs ?t)"
      using r ifaceByIndex_SomeD [OF r'] unfolding frame by auto
    have "mirrored_at ?t k r'"
      using reconcileKeys_mirror [of ?u ?u k r' E "mirroredNeighs ?u"] k r' by simp
    then show ?thesis
      using i(1) one_learningD [OF learn i(3,2,1)] by (rule mirrored_at_same)
  qed
  then show ?thesis
    unfolding t mirror_complete_def frame by blast
qed



section \<open>Packets and neighbour events keep it\<close>

lemma learn_complete:
  assumes "mirror_complete s" and "one_learning s" and "r \<in> set (iface_refs s)"
  shows "mirror_complete (arpMirrorAddr E a r True (add_mirrored (key_of s a r) s))"
proof -
  let ?m = "add_mirrored (key_of s a r) s"
  let ?t = "arpMirrorAddr E a r True ?m"
  have t: "heap ?t = heap s" "iface_refs ?t = iface_refs s"
    by (simp_all add: add_mirrored_def iface_refs_def)
  have keys: "set (mirroredNeighs ?t) = insert (key_of s a r) (set (mirroredNeighs s))"
    and prox: "proxies (trace s) \<subseteq> proxies (trace ?t)" and rts: "routes (trace s) \<subseteq> routes (trace ?t)"
    using learn_effect [where E = E and a = a and r = r and s = s] by auto
  have "mirrored_at ?t k r'" if k: "k \<in> insert (key_of s a r) (set (mirroredNeighs s))"
    and r': "r' \<in> set (iface_refs s)" "Ifindex (heap s r') = mk_ifindex k" for k r'
  proof (cases "k = key_of s a r")
    case True
    have "Ifindex (heap ?m r) = mk_ifindex (key_of s a r)"
      by (simp add: add_mirrored_def)
    then have "mirrored_at ?t k r"
      using arpMirrorAddr_mirrors [of E "key_of s a r" r ?m] True by simp
    moreover have i: "Ifindex (heap s r') = Ifindex (heap s r)"
      using r'(2) True by simp
    ultimately show ?thesis
      using one_learningD [OF assms(2) r'(1) assms(3) i] mirrored_at_same [of ?t k r r'] unfolding t by blast
  next
    case False
    then have "mirrored_at s k r'"
      using assms(1) k r' unfolding mirror_complete_def by blast
    then show ?thesis
      by (rule mirrored_at_mono [OF _ t prox rts])
  qed
  then show ?thesis
    unfolding mirror_complete_def keys t by blast
qed

lemma forget_complete:
  assumes "mirror_complete s" and "\<forall>k \<in> set (mirroredNeighs s). AsSlice (mk_addr k) = AsSlice a \<longrightarrow> k = key_of s a r"
  shows "mirror_complete (forget E r a s)"
proof -
  note e = forget_effect [of E r a s]
  have me: "mirror_entries (forget E r a s) = mirror_entries s"
    by (rule mirror_entries_heap) (rule e(1))
  have "mirrored_at (forget E r a s) k r'"
    if k: "k \<in> set (mirroredNeighs s)" "k \<noteq> key_of s a r" and m: "mirrored_at s k r'" for k r'
  proof -
    have a: "AsSlice (mk_addr k) \<noteq> AsSlice a"
      using assms(2) k by blast
    then have "hostNet (mk_addr k) \<noteq> hostNet a"
      by (simp add: hostNet_def)
    moreover have "x \<notin> mirror_entries s r a (iface_refs s)"
      if "x \<in> mirror_entries s r' (mk_addr k) (iface_refs s)" for x
      using that a by (cases x) (metis mirror_entries_addr)
    ultimately show ?thesis
      using m unfolding mirrored_at_def me e(1,2,4,5) by auto
  qed
  then show ?thesis
    using assms(1) unfolding mirror_complete_def e(1,2,3) by blast
qed

definition mirror_good :: "state \<Rightarrow> bool" where
  "mirror_good s \<longleftrightarrow> mirror_complete s \<and> one_place s \<and> one_learning s"

lemma mirror_good_forget:
  assumes "mirror_good s" and "\<forall>k \<in> set (mirroredNeighs s). AsSlice (mk_addr k) = AsSlice a \<longrightarrow> k = key_of s a r"
  shows "mirror_good (forget E r a s)"
proof -
  have "one_place (forget E r a s)"
    using assms(1) by (auto simp: mirror_good_def one_place_def forget_effect)
  then show ?thesis
    using assms forget_complete [of s a r E] one_learning_cong [OF forget_effect(1,2)]
    by (simp add: mirror_good_def)
qed

lemma mirror_good_place:
  "mirror_good s \<Longrightarrow> key_of s a r \<in> set (mirroredNeighs s) \<Longrightarrow>
   \<forall>k \<in> set (mirroredNeighs s). AsSlice (mk_addr k) = AsSlice a \<longrightarrow> k = key_of s a r"
  by (fastforce simp: mirror_good_def one_place_def)

lemma mirror_good_calls:
  assumes "mirror_good s" and "heap t = heap s" and "iface_refs t = iface_refs s"
    and "mirroredNeighs t = mirroredNeighs s" and "proxies (trace t) = proxies (trace s)"
    and "routes (trace t) = routes (trace s)"
  shows "mirror_good t"
  using assms mirror_complete_mono [of s t] one_learning_cong [of t s] by (simp add: mirror_good_def one_place_def)

lemma mirror_good_real_neigh:
  "mirror_good s \<Longrightarrow> mirror_good (deleteNeigh4 E a i s)"
  "mirror_good s \<Longrightarrow> mirror_good (probeNeighbor E a i s)"
  by (rule mirror_good_calls [of s]; simp)+

lemma neigh_complete:
  assumes "mirror_good s"
  shows "mirror_complete (handleNeighEvent E u s)"
proof (cases "\<exists>r a. client_event s u r a")
  case False
  then show ?thesis
    using assms by (simp add: handleNeighEvent_other mirror_good_def)
next
  case True
  then obtain r a where ev: "client_event s u r a" by blast
  have "r \<in> set (iface_refs s)"
    using ev ifaceByIndex_SomeD by (auto simp: client_event_def)
  then have "mirror_complete (arpMirrorAddr E a r True (add_mirrored (key_of s a r) s))"
    using assms learn_complete [of s r E a] by (simp add: mirror_good_def)
  moreover have "mirror_good (forget E r a s)" if "key_of s a r \<in> set (mirroredNeighs s)"
    by (rule mirror_good_forget [OF assms mirror_good_place [OF assms that]])
  ultimately show ?thesis
    using assms mirror_good_real_neigh(1)
    by (auto simp: handleNeighEvent_client [OF ev] Let_def mirror_good_def)
qed

lemma unmirror_good: "mirror_good s \<Longrightarrow> mirror_good (unmirrorClient E a r s)"
proof -
  assume s: "mirror_good s"
  have "unmirrorClient E a r s = (if key_of s a r \<notin> set (mirroredNeighs s) then s
      else deleteNeigh4 E a (Ifindex (heap s r)) (forget E r a s))"
    by (simp add: unmirrorClient_def forget_def)
  then show ?thesis
    using s mirror_good_forget [OF s mirror_good_place [OF s]] mirror_good_real_neigh(1) by simp
qed

lemma gave_up_good:
  assumes "mirror_good s"
  shows "mirror_good (gave_up E dat opts r s)"
proof -
  have "mirror_good t \<Longrightarrow> mirror_good (declineOption E r opt t)" for opt t
    using unmirror_good by (simp add: declineOption_def split: prod.split)
  then have "mirror_good (fold (declineOption E r) opts s)"
    using assms by (intro fold_invariant [where I = mirror_good]) blast+
  then show ?thesis
    using assms unmirror_good by (simp add: gave_up_def Let_def)
qed

lemma request_complete:
  assumes "mirror_good s" and "240 \<le> length dat" and "relayClientRequest E dat r s = Some t"
  shows "mirror_good t"
proof -
  obtain opts where opts: "parseDHCPOptions dat = Some opts"
    using parseDHCPOptions_total [OF assms(2)] by blast
  have sends: "fold proxy_request (map (request_datagram p s) cs) P = P"
    "fold route_request (map (request_datagram p s) cs) R = R" for p cs P R
    by (induction cs) (simp_all add: request_datagram_def)
  have "mirror_good (u\<lparr>trace := trace u @ map (request_datagram p s) cs\<rparr>)" if "mirror_good u" for u p cs
    by (rule mirror_good_calls [OF that]) (simp_all add: sends iface_refs_def)
  then show ?thesis
    using relayClientRequest_eq [OF assms(2) opts, where E = E and r = r and s = s] assms(1,3) gave_up_good [OF assms(1), of E dat opts r]
    by (auto simp: Let_def split: if_splits)
qed

interpretation complete_loop: loop_body "relayToTarget E dat mt yi hasYi flags"
  "\<lambda>r. 240 \<le> length dat \<and> (hasYi \<longrightarrow> (\<forall>i. client_key \<lparr>mk_addr = yi, mk_ifindex = i\<rparr>)) \<and> r \<in> set refs"
  "\<lambda>s. mirror_complete s \<and> one_learning s \<and> iface_refs s = refs" for E dat mt yi hasYi flags refs
proof
  fix r s
  assume good: "240 \<le> length dat \<and> (hasYi \<longrightarrow> (\<forall>i. client_key \<lparr>mk_addr = yi, mk_ifindex = i\<rparr>)) \<and> r \<in> set refs"
    and s: "mirror_complete s \<and> one_learning s \<and> iface_refs s = refs"
  have calls: "mirror_complete t \<Longrightarrow> mirror_complete (seedNeighbor4 E yi m i t)"
    "mirror_complete t \<Longrightarrow> mirror_complete (issue (reply_datagram dat d s r) t)" for t m i d
    by (rule mirror_complete_mono [of t]; simp add: reply_datagram_def)+
  have l: "mirror_complete (learned E dat yi r s)"
    using s good learn_complete by (auto simp: learned_def)
  obtain t where t: "relayToTarget E dat mt yi hasYi flags r s = Some t" "mirror_complete t"
    using s good calls l relayToTarget_eq [of dat hasYi yi E mt flags r s] by (simp add: Let_def client_key_def)
  moreover have "\<exists>t'. relayToTarget E dat mt yi hasYi flags r s = Some t' \<and> mirror_step client_key s t'"
    by (rule reply_loop.body_ok) (use good mirror_step_refl in auto)
  then have "heap t = heap s" "iface_refs t = iface_refs s"
    using t(1) by (auto dest: mirror_step_frame)
  ultimately show "\<exists>t. relayToTarget E dat mt yi hasYi flags r s = Some t \<and>
      mirror_complete t \<and> one_learning t \<and> iface_refs t = refs"
    using s one_learning_cong [of t s] by auto
qed

lemma reply_complete:
  assumes "mirror_good s" and len: "240 \<le> length dat" and r: "relayServerResponse E dat s = Some t"
  shows "mirror_complete t \<and> one_learning t"
proof -
  obtain opts where opts: "parseDHCPOptions dat = Some opts"
    using parseDHCPOptions_total [OF len] by blast
  obtain sel where sel: "fold_opt (pickSlave s) opts None = Some sel"
    and reg: "case sel of None \<Rightarrow> True | Some r \<Rightarrow> r \<in> set (iface_refs s) \<and> \<not> Master (heap s r)"
    using slave_loop.loop_ok [of opts s None] by (auto simp: list_all_iff)
  have targets: "set (replyTargets s sel) \<subseteq> set (iface_refs s)"
    using reg by (auto simp: replyTargets_def split: option.splits)
  obtain yi ok where yi: "assignedAddr dat = Some (yi, ok)"
    and good: "ok \<longrightarrow> (\<forall>i. client_key \<lparr>mk_addr = yi, mk_ifindex = i\<rparr>)"
    using assignedAddr_total [OF len] by (fastforce simp: client_key_def)
  obtain u where "fold_opt (relayToTarget E dat (fst (dhcpOptionByte opts dhcpOptMsgType)) yi ok
      (be_Uint16 (dat ! 10) (dat ! 11))) (replyTargets s sel) s = Some u" "mirror_complete u" "one_learning u"
    using complete_loop.loop_ok [of dat ok yi "iface_refs s" "replyTargets s sel" s] len good targets assms(1)
    by (fastforce simp: list_all_iff mirror_good_def)
  then show ?thesis
    using r len opts sel yi assms(1) by (auto simp: relayServerResponse_def mirror_good_def Let_def split: if_splits)
qed

lemma packet_complete:
  assumes "mirror_good s" and "handleDHCPv4 E ds src dat s = Some t"
  shows "mirror_complete t"
proof -
  consider "t = s" | "240 \<le> length dat" "relayClientRequest E dat (ds_iface ds) s = Some t"
    | "240 \<le> length dat" "relayServerResponse E dat s = Some t"
    using assms(2) by (auto simp: handleDHCPv4_eq accepted_def simp del: One_nat_def split: if_splits)
  then show ?thesis
    using assms(1) request_complete [OF assms(1)] reply_complete [OF assms(1)]
    by cases (simp_all add: mirror_good_def)
qed

section \<open>The sweep keeps it\<close>

definition routes_in_place :: "env \<Rightarrow> state \<Rightarrow> bool" where
  \<comment> \<open>an owned host route the kernel lists for a client of the table is on the client's interface\<close>
  "routes_in_place E s \<longleftrightarrow> (\<forall>h i rts rt j a. ans_routeList E h i = Inr rts \<longrightarrow> rt \<in> set rts \<longrightarrow>
     owned_addr j rt = Some a \<longrightarrow>
     (\<forall>k \<in> set (mirroredNeighs s). AsSlice (mk_addr k) = AsSlice a \<longrightarrow> k = \<lparr>mk_addr = a, mk_ifindex = j\<rparr>))"

definition swept_good :: "state \<Rightarrow> state \<Rightarrow> bool" where
  \<comment> \<open>what holds all through a sweep that started in \<open>s0\<close>\<close>
  "swept_good s0 s \<longleftrightarrow> mirror_good s \<and> heap s = heap s0 \<and> iface_refs s = iface_refs s0 \<and>
     set (mirroredNeighs s) \<subseteq> set (mirroredNeighs s0)"

lemma swept_good_calls:
  assumes "swept_good s0 s" and "heap t = heap s" and "iface_refs t = iface_refs s"
    and "mirroredNeighs t = mirroredNeighs s" and "proxies (trace t) = proxies (trace s)"
    and "routes (trace t) = routes (trace s)"
  shows "swept_good s0 t"
  using assms mirror_good_calls [of s t] by (simp add: swept_good_def)

lemma swept_good_issue:
  "swept_good s0 s \<Longrightarrow> swept_good s0 (issue (LinkByIndex i) s)"
  "swept_good s0 s \<Longrightarrow> swept_good s0 (issue (NeighList i) s)"
  "swept_good s0 s \<Longrightarrow> swept_good s0 (issue (RouteList i) s)"
  by (rule swept_good_calls [of s0 s]; simp)+

lemma swept_good_forget:
  assumes "swept_good s0 s" and "\<forall>k \<in> set (mirroredNeighs s). AsSlice (mk_addr k) = AsSlice a \<longrightarrow> k = key_of s a r"
  shows "swept_good s0 (forget E r a s)"
  using assms mirror_good_forget [of s a r E] by (auto simp: swept_good_def forget_effect)

lemma sweepNeigh_good:
  assumes "swept_good s0 (fst sl)"
  shows "swept_good s0 (fst (sweepNeigh E r n sl))"
proof -
  obtain s live where sl: "sl = (s, live)" by (cases sl)
  have s: "swept_good s0 s" and g: "mirror_good s"
    using assms by (simp_all add: sl swept_good_def)
  have "swept_good s0 (deleteNeigh4 E a i t)" "swept_good s0 (probeNeighbor E a i t)"
    if "swept_good s0 t" for a i t
    by (rule swept_good_calls [OF that]; simp)+
  then show ?thesis
    using s swept_good_forget [OF s mirror_good_place [OF g]]
    by (simp add: sl sweepNeigh_eq split: neigh_class.split)
qed

lemma sweepRoute_good:
  assumes "routes_in_place E s0" and "ans_routeList E h i = Inr rts" and "rt \<in> set rts" and "swept_good s0 s"
  shows "swept_good s0 (sweepRoute E r live rt s)"
proof (cases "owned_addr (Ifindex (heap s r)) rt")
  case None
  with assms(4) show ?thesis by (simp add: sweepRoute_eq)
next
  case (Some a)
  have "\<forall>k \<in> set (mirroredNeighs s). AsSlice (mk_addr k) = AsSlice a \<longrightarrow> k = key_of s a r"
    using assms Some unfolding routes_in_place_def swept_good_def by blast
  from swept_good_forget [OF assms(4) this] assms(4) show ?thesis
    by (simp add: sweepRoute_eq Some)
qed

lemma sweepIface_good:
  assumes "routes_in_place E s0" and "swept_good s0 s"
  shows "swept_good s0 (sweepIface E r s)"
proof -
  have neighs: "swept_good s0 (fst (fold (sweepNeigh E r) ns (t, [])))" if "swept_good s0 t" for ns t
    using that by (intro fold_invariant [where I = "\<lambda>sl. swept_good s0 (fst sl)"]) (simp_all add: sweepNeigh_good)
  have rts: "swept_good s0 (fold (sweepRoute E r live) rts t)"
    if "swept_good s0 t" "ans_routeList E h i = Inr rts" for t live h i rts
    using that(1) by (intro fold_invariant [where I = "swept_good s0"]) (auto intro: sweepRoute_good [OF assms(1) that(2)])
  show ?thesis
    using assms(2)
    by (auto simp: sweepIface_def sweepIfaceFailedAndOrphans_def Let_def case_prod_beta
        split: sum.split intro!: swept_good_issue neighs intro: rts)
qed

lemma sweep_complete:
  assumes "mirror_good s" and "routes_in_place E s"
  shows "mirror_good (sweepFailedAndOrphans E s)"
proof -
  have "swept_good s (sweepFailedAndOrphans E s)"
    unfolding sweepFailedAndOrphans_def
    by (rule fold_invariant [where I = "swept_good s"]) (use assms sweepIface_good in \<open>simp_all add: swept_good_def\<close>)
  then show ?thesis
    by (simp add: swept_good_def)
qed

section \<open>Link events keep it\<close>

definition same_relaying :: "state \<Rightarrow> state \<Rightarrow> bool" where
  \<comment> \<open>nothing the contract speaks of differs\<close>
  "same_relaying s t \<longleftrightarrow> same_requests s t \<and> iface_refs t = iface_refs s \<and> mirroredNeighs t = mirroredNeighs s \<and>
     (\<forall>r. Ifindex (heap t r) = Ifindex (heap s r) \<and> Master (heap t r) = Master (heap s r) \<and>
       ARP (heap t r) = ARP (heap s r) \<and> LearnRoutes (heap t r) = LearnRoutes (heap s r))"

lemma same_relaying_trans: "same_relaying s t \<Longrightarrow> same_relaying t u \<Longrightarrow> same_relaying s u"
  by (simp add: same_relaying_def same_requests_def)

lemma same_relaying_ops:
  "same_relaying s (refreshInterfaceAddresses E r s)" "same_relaying s (reloadServices E r s)"
  "same_relaying s (disableServices E r s)" "same_relaying s (set_iface r (\<lambda>i. i\<lparr>Running := b\<rparr>) s)"
  using refresh_quiet.quiet reloadServices_quiet.quiet disableServices_quiet.quiet
  by (simp_all add: same_relaying_def) (simp add: same_requests_def)

lemma same_relaying_mirror:
  assumes "same_relaying s t"
  shows "mirror_complete t = mirror_complete s" "one_place t = one_place s" "one_learning t = one_learning s"
proof -
  note f = assms [unfolded same_relaying_def same_requests_def]
  have "mirror_entries t = mirror_entries s"
    using f by (intro ext) (simp add: mirror_entries_def relays_for_def)
  then show "mirror_complete t = mirror_complete s" "one_place t = one_place s" "one_learning t = one_learning s"
    using f by (simp_all add: mirror_complete_def mirrored_at_def one_place_def one_learning_def)
qed

lemma clearMirroredKey_good:
  assumes "swept_good s0 s" and "mirror_good s0" and "k \<in> set (mirroredNeighs s0)"
  shows "swept_good s0 (clearMirroredKey E r k s)"
proof (cases "mk_ifindex k = Ifindex (heap s r)")
  case True
  then have k: "key_of s (mk_addr k) r = k"
    by simp
  have "\<forall>k' \<in> set (mirroredNeighs s). AsSlice (mk_addr k') = AsSlice (mk_addr k) \<longrightarrow> k' = key_of s (mk_addr k) r"
    using assms unfolding k swept_good_def mirror_good_def one_place_def by blast
  from swept_good_forget [OF assms(1) this, of E]
  have g: "swept_good s0 (arpMirrorAddr E (mk_addr k) r False (delete_mirrored k s))"
    unfolding forget_def k .
  have "mirror_entries (delete_mirrored k s) = mirror_entries s"
    by (rule mirror_entries_heap) (simp add: delete_mirrored_def)
  then have "swept_good s0 (delete_mirrored k (arpMirrorAddr E (mk_addr k) r False s))"
    by (intro swept_good_calls [OF g]) (simp_all add: delete_mirrored_def arpMirrorAddr_requests iface_refs_def)
  then show ?thesis
    using True by (simp add: clearMirroredKey_def)
qed (simp add: assms(1) clearMirroredKey_def)

lemma clearMirroredState_good: "mirror_good s \<Longrightarrow> swept_good s (clearMirroredState E r s)"
  unfolding clearMirroredState_def
  by (rule fold_invariant [where I = "swept_good s"]) (simp_all add: clearMirroredKey_good, simp add: swept_good_def)

lemma renumber_complete:
  assumes "mirror_complete s" and "\<not> (Master (heap s r) \<and> ARP (heap s r) = ModeRelay)"
    and "\<forall>k \<in> set (mirroredNeighs s). mk_ifindex k \<noteq> i"
    and "\<And>x. Ifindex (f x) = i \<and> Master (f x) = Master x \<and> ARP (f x) = ARP x"
  shows "mirror_complete (set_iface r f s)"
proof -
  let ?t = "set_iface r f s"
  have "mirrored_at ?t k r'" if k: "k \<in> set (mirroredNeighs s)" and r': "r' \<in> set (iface_refs s)"
    and idx: "Ifindex (heap ?t r') = mk_ifindex k" for k r'
  proof -
    have ne: "r' \<noteq> r"
      using assms(3,4) k idx by (auto split: if_splits)
    have "relays_for ?t r' c = relays_for s r' c \<and> (relays_for s r' c \<longrightarrow> Ifindex (heap ?t c) = Ifindex (heap s c))" for c
      using assms(2,4) ne by (auto simp: relays_for_def)
    then have "mirror_entries ?t r' (mk_addr k) (iface_refs s) = mirror_entries s r' (mk_addr k) (iface_refs s)"
      by (auto simp: mirror_entries_def image_iff)
    moreover have "mirrored_at s k r'"
      using assms(1) k r' idx ne by (simp add: mirror_complete_def)
    ultimately show ?thesis
      using ne by (simp add: mirrored_at_def)
  qed
  then show ?thesis
    by (simp add: mirror_complete_def)
qed

definition index_after :: "state \<Rightarrow> LinkUpdate \<Rightarrow> iref \<Rightarrow> int" where
  \<comment> \<open>the index a link event leaves the interface with\<close>
  "index_after s u r =
     (if lu_Type u \<noteq> RTM_DELLINK then lu_Index u
      else if Ifindex (heap s r) = lu_Index u then 0 else Ifindex (heap s r))"

definition renumbers :: "LinkUpdate \<Rightarrow> state \<Rightarrow> bool" where
  \<comment> \<open>a relaying master gets another index, or an interface one the table has clients for\<close>
  "renumbers u s \<longleftrightarrow> (case ifaceByIfname s (lu_Name u) of None \<Rightarrow> False | Some r \<Rightarrow>
     index_after s u r \<noteq> Ifindex (heap s r) \<and>
     (Master (heap s r) \<and> ARP (heap s r) = ModeRelay \<or> index_after s u r \<in> mk_ifindex ` set (mirroredNeighs s)))"

lemma withdrawn:
  assumes "mirror_good s"
  shows "mirror_complete (clearMirroredState E r (disableServices E r s))"
proof -
  have "mirror_good (disableServices E r s)"
    using assms same_relaying_mirror [OF same_relaying_ops(3)] by (simp add: mirror_good_def)
  from clearMirroredState_good [OF this, where E = E and r = r] show ?thesis
    by (simp add: swept_good_def mirror_good_def)
qed

lemma withdrawn_complete:
  assumes "mirror_good s" and "\<not> (Master (heap s r) \<and> ARP (heap s r) = ModeRelay)"
    and "i \<notin> mk_ifindex ` set (mirroredNeighs s)"
    and "\<And>x. Ifindex (f x) = i \<and> Master (f x) = Master x \<and> ARP (f x) = ARP x"
  shows "mirror_complete (set_iface r f (clearMirroredState E r (disableServices E r s)))"
  by (rule renumber_complete [OF withdrawn [OF assms(1)], where i = i]) (use assms(2-4) in \<open>auto simp: clearMirroredState_keys\<close>)

lemma link_complete:
  assumes "mirror_good s" and "\<not> renumbers u s"
  shows "mirror_complete (handleLinkEvent E u s)"
proof (cases "ifaceByIfname s (lu_Name u)")
  case None
  with assms(1) show ?thesis by (simp add: handleLinkEvent_def mirror_good_def)
next
  case (Some r)
  have s: "mirror_complete s"
    using assms(1) by (simp add: mirror_good_def)
  have keep: "mirror_complete (reloadServices E r t) = mirror_complete t"
    "mirror_complete (refreshInterfaceAddresses E r t) = mirror_complete t"
    "mirror_complete (set_iface r (\<lambda>i. i\<lparr>Running := b\<rparr>) t) = mirror_complete t" for t b
    by (rule same_relaying_mirror(1), rule same_relaying_ops)+
  show ?thesis
  proof (cases "index_after s u r = Ifindex (heap s r)")
    case True
    let ?c = "clearMirroredState E r (disableServices E r s)"
    have "mirror_complete (set_iface r (\<lambda>i. i\<lparr>Ifindex := 0, Running := False, Addr4s := []\<rparr>) ?c)"
      if "Ifindex (heap s r) = 0"
    proof -
      have "same_relaying ?c (set_iface r (\<lambda>i. i\<lparr>Ifindex := 0, Running := False, Addr4s := []\<rparr>) ?c)"
        using that by (simp add: same_relaying_def same_requests_def)
      then show ?thesis
        using same_relaying_mirror(1) withdrawn [OF assms(1), where E = E and r = r] by blast
    qed
    note zero = this
    show ?thesis
      using True s zero Some
      by (auto simp: index_after_def handleLinkEvent_def Let_def keep split: if_splits)
  next
    case False
    then have "\<not> (Master (heap s r) \<and> ARP (heap s r) = ModeRelay)"
      "index_after s u r \<notin> mk_ifindex ` set (mirroredNeighs s)"
      using assms(2) Some by (auto simp: renumbers_def)
    note w = withdrawn_complete [OF assms(1) this, where E = E]
    show ?thesis
      using False Some s w
      by (auto simp: index_after_def handleLinkEvent_def Let_def keep split: if_splits)
  qed
qed

section \<open>All events that keep it\<close>

lemma refresh_complete:
  assumes "mirror_complete s"
  shows "mirror_complete (refreshInterfaceAddresses E r s)"
proof -
  let ?t = "refreshInterfaceAddresses E r s"
  have me: "mirror_entries ?t = mirror_entries s"
    by (intro ext) (simp add: mirror_entries_def relays_for_def)
  have "proxies (trace ?t) = proxies (trace s)" "routes (trace ?t) = routes (trace s)"
    by (auto simp: refreshInterfaceAddresses_def fetchAddr4_def Let_def split: prod.split sum.split)
  then show ?thesis
    using assms by (simp add: mirror_complete_def mirrored_at_def me)
qed

definition disruptive :: "state \<Rightarrow> event \<Rightarrow> bool" where
  \<comment> \<open>the events that can leave a client without its entries\<close>
  "disruptive s e \<longleftrightarrow> (case e of LinkEvent u \<Rightarrow> renumbers u s | ReloadEvent \<Rightarrow> True | _ \<Rightarrow> False)"



text \<open>C17: A client that moved loses its proxy entries: if its address is in the table for two interfaces and the
  neighbour entry on the old one fails, the entry on every other relaying master is withdrawn, although
  the client stays in the table for its new interface.\<close>
theorem moved_client_withdrawn:
  assumes "client_event s u r a" and "n_State (nu_Neigh u) AND NUD_FAILED \<noteq> 0"
    and "key_of s a r \<in> set (mirroredNeighs s)" and "key_of s a r' \<in> set (mirroredNeighs s)"
    and "Ifindex (heap s r') \<noteq> Ifindex (heap s r)"
    and "c \<in> set (iface_refs s)" and "relays_for s r c" and "t = handleNeighEvent E u s"
  shows "key_of t a r' \<in> set (mirroredNeighs t) \<and> (AsSlice a, Ifindex (heap t c)) \<notin> proxies (trace t)"
proof -
  have h: "heap t = heap s"
    by (simp add: assms(8))
  moreover have "(AsSlice a, Ifindex (heap s c)) \<in> mirror_entries s r a (iface_refs s)"
    using assms(6,7) by (auto simp: mirror_entries_def)
  ultimately show ?thesis
    using neigh_transitions(2) [OF assms(1-3), of E] assms(4,5) unfolding assms(8) by auto
qed

lemma moved_client_withdrawn_witness:
  "\<exists>t. handleNeighEvent quiet_env (sample_neigh NUD_FAILED)
      (sample_state\<lparr>mirroredNeighs := [\<lparr>mk_addr = sample_client, mk_ifindex = 2\<rparr>, \<lparr>mk_addr = sample_client, mk_ifindex = 0\<rparr>],
         trace := [NeighSet (neigh4 sample_client 3 0 NTF_PROXY [])]\<rparr>) = t \<and>
    \<lparr>mk_addr = sample_client, mk_ifindex = 0\<rparr> \<in> set (mirroredNeighs t) \<and> (AsSlice sample_client, 3) \<notin> proxies (trace t)"
proof -
  let ?s = "sample_state\<lparr>mirroredNeighs := [\<lparr>mk_addr = sample_client, mk_ifindex = 2\<rparr>, \<lparr>mk_addr = sample_client, mk_ifindex = 0\<rparr>],
         trace := [NeighSet (neigh4 sample_client 3 0 NTF_PROXY [])]\<rparr>"
  let ?t = "handleNeighEvent quiet_env (sample_neigh NUD_FAILED) ?s"
  have ev: "client_event ?s (sample_neigh NUD_FAILED) 0 sample_client"
    by (simp add: client_event_def sample_neigh_def sample_client_def To4_def IsLoopback_def
        IsMulticast_def IsLinkLocalUnicast_def ifaceByIndex_def iface_refs_def)
  have st: "n_State (nu_Neigh (sample_neigh NUD_FAILED)) AND NUD_FAILED \<noteq> 0"
    by (simp add: sample_neigh_def)
  have h: "heap ?s 2 = new_Interface ''''" "heap ?t = heap ?s"
    by (simp_all add: sample_state_def)
  have keys: "key_of ?s sample_client 0 \<in> set (mirroredNeighs ?s)" "key_of ?s sample_client 2 \<in> set (mirroredNeighs ?s)"
    "Ifindex (heap ?s 2) \<noteq> Ifindex (heap ?s 0)"
    using h(1) by (simp_all add: new_Interface_def)
  have c: "1 \<in> set (iface_refs ?s)" "relays_for ?s 0 1"
    by (simp_all add: iface_refs_def relays_for_def)
  have "key_of ?t sample_client 2 \<in> set (mirroredNeighs ?t)"
    "(AsSlice sample_client, Ifindex (heap ?t 1)) \<notin> proxies (trace ?t)"
    using moved_client_withdrawn [OF ev st keys c refl, of quiet_env] by blast+
  then show ?thesis
    using h by (auto simp: new_Interface_def)
qed

end
