(* ===== verification/Json_Text.thy ===== *)
theory Json_Text
  imports Strconv
begin

text \<open>
  JSON as Go's \<open>encoding/json\<close> reads it: the text of a value to a tree. A Go string is a list of
  bytes, here of \<open>char\<close>. Numbers are kept as their literal text; strings are unquoted: escapes
  are replaced, surrogate pairs combined, and what is not UTF-8 becomes the replacement character.
  Containers may be nested at most 10000 deep. Every syntax error is \<open>None\<close>.
\<close>

datatype json =
    JNull
  | JBool bool
  | JNum string
  | JStr string
  | JArr "json list"
  | JObj "(string \<times> json) list"

section \<open>White space and literals\<close>

definition is_ws :: "char \<Rightarrow> bool" where
  "is_ws c \<longleftrightarrow> (of_char c :: int) \<in> {32, 9, 13, 10}"

fun skip_ws :: "string \<Rightarrow> string" where
  "skip_ws [] = []"
| "skip_ws (c # cs) = (if is_ws c then skip_ws cs else c # cs)"

fun strip :: "string \<Rightarrow> string \<Rightarrow> string option" where
  \<comment> \<open>the text after a literal\<close>
  "strip [] s = Some s"
| "strip (c # cs) [] = None"
| "strip (c # cs) (d # ds) = (if c = d then strip cs ds else None)"

section \<open>Numbers\<close>

fun take_digits :: "string \<Rightarrow> string \<times> string" where
  "take_digits [] = ([], [])"
| "take_digits (c # cs) =
     (if is_digit c then (case take_digits cs of (ds, rest) \<Rightarrow> (c # ds, rest)) else ([], c # cs))"

definition some_digits :: "string \<Rightarrow> (string \<times> string) option" where
  "some_digits s = (case take_digits s of (ds, rest) \<Rightarrow> if ds = [] then None else Some (ds, rest))"

definition int_part :: "string \<Rightarrow> (string \<times> string) option" where
  \<comment> \<open>no digit follows a leading zero\<close>
  "int_part s = (case s of
     [] \<Rightarrow> None
   | c # cs \<Rightarrow> if c = CHR ''0'' then Some ([c], cs) else some_digits s)"

definition frac_part :: "string \<Rightarrow> (string \<times> string) option" where
  "frac_part s = (case s of
     c # cs \<Rightarrow> if c = CHR ''.'' then map_option (\<lambda>(ds, r). (c # ds, r)) (some_digits cs) else Some ([], s)
   | [] \<Rightarrow> Some ([], []))"

definition exp_part :: "string \<Rightarrow> (string \<times> string) option" where
  "exp_part s = (case s of
     [] \<Rightarrow> Some ([], [])
   | c # cs \<Rightarrow>
       if c = CHR ''e'' \<or> c = CHR ''E'' then
         (case cs of
            [] \<Rightarrow> None
          | d # ds \<Rightarrow>
              if d = CHR ''+'' \<or> d = CHR ''-'' then map_option (\<lambda>(t, r). (c # d # t, r)) (some_digits ds)
              else map_option (\<lambda>(t, r). (c # t, r)) (some_digits cs))
       else Some ([], s))"

definition sign_part :: "string \<Rightarrow> string \<times> string" where
  "sign_part s = (if s \<noteq> [] \<and> hd s = CHR ''-'' then (''-'', tl s) else ([], s))"

definition parse_number :: "string \<Rightarrow> (string \<times> string) option" where
  \<comment> \<open>the literal and the rest\<close>
  "parse_number s = (case sign_part s of
     (sign, s1) \<Rightarrow> do {
       (ip, s2) \<leftarrow> int_part s1;
       (fp, s3) \<leftarrow> frac_part s2;
       (ep, s4) \<leftarrow> exp_part s3;
       Some (sign @ ip @ fp @ ep, s4)
     })"

section \<open>Strings\<close>

definition in_range :: "int \<Rightarrow> int \<Rightarrow> string \<Rightarrow> nat \<Rightarrow> bool" where
  "in_range lo hi s i \<longleftrightarrow> i < length s \<and> lo \<le> of_char (s ! i) \<and> of_char (s ! i) \<le> hi"

definition utf8_lead :: "int \<Rightarrow> nat \<times> int \<times> int" where
  \<comment> \<open>the size of a sequence by its first byte, and the bounds of its second byte\<close>
  "utf8_lead b =
     (if b < 128 then (1, 0, 0)
      else if b < 194 then (0, 0, 0)
      else if b < 224 then (2, 128, 191)
      else if b = 224 then (3, 160, 191)
      else if b = 237 then (3, 128, 159)
      else if b < 240 then (3, 128, 191)
      else if b = 240 then (4, 144, 191)
      else if b < 244 then (4, 128, 191)
      else if b = 244 then (4, 128, 143)
      else (0, 0, 0))"

definition utf8_size :: "string \<Rightarrow> nat" where
  \<comment> \<open>the size of the UTF-8 sequence a non-empty string starts with, 0 when there is none\<close>
  "utf8_size s = (case utf8_lead (of_char (hd s)) of (n, lo, hi) \<Rightarrow>
     if n \<le> 1 then n
     else if in_range lo hi s 1 \<and> list_all (in_range 128 191 s) [2..<n] then n
     else 0)"

definition utf8_encode :: "int \<Rightarrow> string" where
  \<comment> \<open>of a rune that is no surrogate\<close>
  "utf8_encode r =
     (if r < 128 then [char_of r]
      else if r < 2048 then [char_of (192 + r div 64), char_of (128 + r mod 64)]
      else if r < 65536 then [char_of (224 + r div 4096), char_of (128 + r div 64 mod 64), char_of (128 + r mod 64)]
      else [char_of (240 + r div 262144), char_of (128 + r div 4096 mod 64),
            char_of (128 + r div 64 mod 64), char_of (128 + r mod 64)])"

definition replacement :: string where
  "replacement = utf8_encode 65533"

definition hex_val :: "char \<Rightarrow> int option" where
  "hex_val c = (case digit_val c of Some d \<Rightarrow> if d < 16 then Some d else None | None \<Rightarrow> None)"

definition hex4 :: "string \<Rightarrow> int option" where
  \<comment> \<open>the value of the first four characters\<close>
  "hex4 s = (if length s < 4 then None
     else do {
       a \<leftarrow> hex_val (s ! 0); b \<leftarrow> hex_val (s ! 1); c \<leftarrow> hex_val (s ! 2); d \<leftarrow> hex_val (s ! 3);
       Some (((a * 16 + b) * 16 + c) * 16 + d)
     })"

definition getu4 :: "string \<Rightarrow> int option" where
  \<comment> \<open>a whole \<open>\u\<close> escape\<close>
  "getu4 s = (if 2 \<le> length s \<and> s ! 0 = CHR 0x5C \<and> s ! 1 = CHR ''u'' then hex4 (drop 2 s) else None)"

definition unicode_escape :: "int \<Rightarrow> string \<Rightarrow> string \<times> nat" where
  \<comment> \<open>the bytes of a \<open>\u\<close> escape of value \<open>r\<close>, and how much of what follows it takes along: a low
    surrogate after a high one; any other surrogate becomes the replacement character\<close>
  "unicode_escape r rest =
     (if 55296 \<le> r \<and> r < 57344 then
        (case getu4 rest of
           Some r1 \<Rightarrow>
             if r < 56320 \<and> 56320 \<le> r1 \<and> r1 < 57344
             then (utf8_encode ((r - 55296) * 1024 + (r1 - 56320) + 65536), 6)
             else (replacement, 0)
         | None \<Rightarrow> (replacement, 0))
      else (utf8_encode r, 0))"

definition simple_escape :: "char \<Rightarrow> char option" where
  "simple_escape c =
     (if c = CHR 0x22 \<or> c = CHR 0x5C \<or> c = CHR ''/'' then Some c
      else if c = CHR ''b'' then Some (CHR 0x08)
      else if c = CHR ''f'' then Some (CHR 0x0C)
      else if c = CHR ''n'' then Some (CHR 0x0A)
      else if c = CHR ''r'' then Some (CHR 0x0D)
      else if c = CHR ''t'' then Some (CHR 0x09)
      else None)"

function string_body :: "string \<Rightarrow> (string \<times> string) option" where
  \<comment> \<open>what follows an opening quote, up to the closing one: the string and the rest\<close>
  "string_body [] = None"
| "string_body (c # cs) =
     (if c = CHR 0x22 then Some ([], cs)
      else if c = CHR 0x5C then
        (case cs of
           [] \<Rightarrow> None
         | e # es \<Rightarrow>
             if e = CHR ''u'' then
               (case hex4 es of
                  None \<Rightarrow> None
                | Some r \<Rightarrow>
                    (case unicode_escape r (drop 4 es) of (bs, n) \<Rightarrow>
                       map_option (\<lambda>(t, rest). (bs @ t, rest)) (string_body (drop (4 + n) es))))
             else (case simple_escape e of
                     None \<Rightarrow> None
                   | Some b \<Rightarrow> map_option (\<lambda>(t, rest). (b # t, rest)) (string_body es)))
      else if (of_char c :: int) < 32 then None
      else (let n = utf8_size (c # cs)
            in if n = 0 then map_option (\<lambda>(t, rest). (replacement @ t, rest)) (string_body cs)
               else map_option (\<lambda>(t, rest). (take n (c # cs) @ t, rest)) (string_body (drop (n - 1) cs))))"
  by pat_completeness auto
termination by (relation "measure length") auto

section \<open>Values\<close>

function items :: "(string \<Rightarrow> ('a \<times> string) option) \<Rightarrow> char \<Rightarrow> string \<Rightarrow> ('a list \<times> string) option" where
  \<comment> \<open>one item or more, separated by commas, up to the closing bracket; the test of the length
    is true for every parser of items that consumes its input\<close>
  "items p close s =
     (case p (skip_ws s) of
        None \<Rightarrow> None
      | Some (x, s1) \<Rightarrow>
          (case skip_ws s1 of
             [] \<Rightarrow> None
           | c # s2 \<Rightarrow>
               if c = close then Some ([x], s2)
               else if c = CHR '','' \<and> length s2 < length s
               then map_option (\<lambda>(xs, s3). (x # xs, s3)) (items p close s2)
               else None))"
  by pat_completeness auto
termination by (relation "measure (\<lambda>(p, close, s). length s)") auto

declare items.simps [simp del]

definition container :: "(string \<Rightarrow> ('a \<times> string) option) \<Rightarrow> char \<Rightarrow> string \<Rightarrow> ('a list \<times> string) option" where
  \<comment> \<open>what follows an opening bracket\<close>
  "container p close s = (case skip_ws s of
     [] \<Rightarrow> None
   | c # cs \<Rightarrow> if c = close then Some ([], cs) else items p close (c # cs))"

definition member :: "(string \<Rightarrow> (json \<times> string) option) \<Rightarrow> string \<Rightarrow> ((string \<times> json) \<times> string) option" where
  "member p s = (case s of
     [] \<Rightarrow> None
   | q # s1 \<Rightarrow>
       if q \<noteq> CHR 0x22 then None
       else (case string_body s1 of
               None \<Rightarrow> None
             | Some (key, s2) \<Rightarrow>
                 (case skip_ws s2 of
                    [] \<Rightarrow> None
                  | c # s3 \<Rightarrow>
                      if c \<noteq> CHR '':'' then None
                      else map_option (\<lambda>(v, s4). ((key, v), s4)) (p (skip_ws s3)))))"

definition maxNestingDepth :: int where [simp]: "maxNestingDepth = 10000"

function parse_value :: "int \<Rightarrow> string \<Rightarrow> (json \<times> string) option" where
  \<comment> \<open>\<open>d\<close> containers are open\<close>
  "parse_value d s = (case s of
     [] \<Rightarrow> None
   | c # cs \<Rightarrow>
       if c = CHR ''{'' then
         (if d < maxNestingDepth
          then map_option (\<lambda>(ms, r). (JObj ms, r)) (container (member (\<lambda>t. parse_value (d + 1) t)) CHR ''}'' cs)
          else None)
       else if c = CHR ''['' then
         (if d < maxNestingDepth
          then map_option (\<lambda>(xs, r). (JArr xs, r)) (container (\<lambda>t. parse_value (d + 1) t) CHR '']'' cs)
          else None)
       else if c = CHR 0x22 then map_option (\<lambda>(t, r). (JStr t, r)) (string_body cs)
       else if c = CHR ''t'' then map_option (\<lambda>r. (JBool True, r)) (strip ''true'' s)
       else if c = CHR ''f'' then map_option (\<lambda>r. (JBool False, r)) (strip ''false'' s)
       else if c = CHR ''n'' then map_option (\<lambda>r. (JNull, r)) (strip ''null'' s)
       else map_option (\<lambda>(t, r). (JNum t, r)) (parse_number s))"
  by pat_completeness auto
termination by (relation "measure (\<lambda>(d, s). nat (maxNestingDepth - d))") auto

declare parse_value.simps [simp del]

definition parse_json :: "string \<Rightarrow> json option" where
  "parse_json s = (case parse_value 0 (skip_ws s) of
     Some (v, rest) \<Rightarrow> if skip_ws rest = [] then Some v else None
   | None \<Rightarrow> None)"

end
