(* ===== verification/Json_Print.thy ===== *)
theory Json_Print
  imports Json_Text
begin

text \<open>
  A reference printer for JSON, with the same white space at every place where the grammar admits
  any, and the round trip: the parser reads back every value that can be written down.
\<close>

section \<open>The printer\<close>

definition hex_char :: "int \<Rightarrow> char" where
  "hex_char d = char_of (if d < 10 then 48 + d else 87 + d)"

definition show_char :: "char \<Rightarrow> string" where
  "show_char c =
     (if c = CHR 0x22 \<or> c = CHR 0x5C then [CHR 0x5C, c]
      else if (of_char c :: int) < 32
      then [CHR 0x5C, CHR ''u'', CHR ''0'', CHR ''0'', hex_char (of_char c div 16), hex_char (of_char c mod 16)]
      else [c])"

definition show_string :: "string \<Rightarrow> string" where
  "show_string s = CHR 0x22 # concat (map show_char s) @ [CHR 0x22]"

fun separated :: "string \<Rightarrow> string list \<Rightarrow> string" where
  "separated ws [] = []"
| "separated ws [x] = x @ ws"
| "separated ws (x # y # xs) = x @ ws @ CHR '','' # ws @ separated ws (y # xs)"

fun show_json :: "string \<Rightarrow> json \<Rightarrow> string" where
  "show_json ws JNull = ''null''"
| "show_json ws (JBool b) = (if b then ''true'' else ''false'')"
| "show_json ws (JNum t) = t"
| "show_json ws (JStr s) = show_string s"
| "show_json ws (JArr xs) = CHR ''['' # ws @ separated ws (map (show_json ws) xs) @ '']''"
| "show_json ws (JObj ms) = CHR ''{'' # ws @
     separated ws (map (\<lambda>(k, v). show_string k @ ws @ CHR '':'' # ws @ show_json ws v) ms) @ ''}''"

section \<open>What can be written down\<close>

function valid_utf8 :: "string \<Rightarrow> bool" where
  "valid_utf8 [] = True"
| "valid_utf8 (c # cs) = (utf8_size (c # cs) \<noteq> 0 \<and> valid_utf8 (drop (utf8_size (c # cs) - 1) cs))"
  by pat_completeness auto
termination by (relation "measure length") auto

definition number_literal :: "string \<Rightarrow> bool" where
  "number_literal t \<longleftrightarrow> parse_number t = Some (t, [])"

fun json_ok :: "int \<Rightarrow> json \<Rightarrow> bool" where
  \<comment> \<open>under \<open>d\<close> open containers\<close>
  "json_ok d (JNum t) = number_literal t"
| "json_ok d (JStr s) = valid_utf8 s"
| "json_ok d (JArr xs) = (d < maxNestingDepth \<and> (\<forall>x \<in> set xs. json_ok (d + 1) x))"
| "json_ok d (JObj ms) = (d < maxNestingDepth \<and> (\<forall>m \<in> set ms. valid_utf8 (fst m) \<and> json_ok (d + 1) (snd m)))"
| "json_ok d v = True"

definition delimited :: "string \<Rightarrow> bool" where
  \<comment> \<open>no number goes on here\<close>
  "delimited rest \<longleftrightarrow> rest = [] \<or>
     (\<not> is_digit (hd rest) \<and> hd rest \<noteq> CHR ''.'' \<and> hd rest \<noteq> CHR ''e'' \<and> hd rest \<noteq> CHR ''E'')"

section \<open>Strings\<close>

lemma in_range_length: "in_range lo hi s i \<Longrightarrow> i < length s"
  by (simp add: in_range_def)

lemma utf8_size_le:
  assumes "s \<noteq> []"
  shows "utf8_size s \<le> length s"
proof -
  have "n - 1 < length s" if "list_all (in_range 128 191 s) [2..<n]" "in_range lo hi s 1" for n lo hi
    using that in_range_length [of 128 191 s "n - 1"] in_range_length [of lo hi s 1]
    by (cases "2 < n") (auto simp: list_all_iff)
  then show ?thesis
    using assms by (cases "length s") (fastforce simp: utf8_size_def split: prod.split)+
qed

lemma in_range_take:
  "i < n \<Longrightarrow> n \<le> length s \<Longrightarrow> in_range lo hi (take n s @ t) i = in_range lo hi s i"
  by (simp add: in_range_def nth_append)

lemma utf8_size_take:
  assumes "s \<noteq> []" and "utf8_size s \<noteq> 0"
  shows "utf8_size (take (utf8_size s) s @ t) = utf8_size s"
proof -
  obtain n lo hi where l: "utf8_lead (of_char (hd s)) = (n, lo, hi)"
    by (cases "utf8_lead (of_char (hd s))")
  have n: "utf8_size s = n" "n \<le> length s" "n \<noteq> 0"
      "n \<le> 1 \<or> in_range lo hi s 1 \<and> list_all (in_range 128 191 s) [2..<n]"
    using assms utf8_size_le [OF assms(1)] by (auto simp: utf8_size_def l split: if_splits)
  have "hd (take n s @ t) = hd s"
    using assms(1) n(3) by (cases s; cases n) auto
  then show ?thesis
    using n(4) in_range_take [OF _ n(2)] unfolding n(1)
    by (auto simp: utf8_size_def l list_all_iff split: if_splits)
qed

lemma utf8_lead_bounds:
  assumes "utf8_lead b = (n, lo, hi)" and "2 \<le> n"
  shows "128 \<le> b" and "128 \<le> lo"
  using assms by (auto simp: utf8_lead_def split: if_splits)

lemma utf8_bytes:
  assumes "2 \<le> utf8_size s" and "s \<noteq> []" and "i < utf8_size s"
  shows "128 \<le> (of_char (s ! i) :: int)"
proof -
  obtain n lo hi where l: "utf8_lead (of_char (hd s)) = (n, lo, hi)"
    by (cases "utf8_lead (of_char (hd s))")
  have n: "2 \<le> n" "i < n" "in_range lo hi s 1" "list_all (in_range 128 191 s) [2..<n]"
    using assms by (auto simp: utf8_size_def l split: if_splits)
  note b = utf8_lead_bounds [OF l n(1)]
  consider "i = 0" | "i = 1" | "2 \<le> i" by linarith
  then show ?thesis
  proof cases
    case 1
    with b(1) assms(2) show ?thesis by (simp add: hd_conv_nth)
  next
    case 2
    with b(2) n(3) show ?thesis by (auto simp: in_range_def)
  next
    case 3
    with n(2,4) show ?thesis by (auto simp: in_range_def list_all_iff)
  qed
qed

lemma utf8_size_ascii: "(of_char c :: int) < 128 \<Longrightarrow> utf8_size (c # cs) = 1"
  by (simp add: utf8_size_def utf8_lead_def)

lemma utf8_size_1: "utf8_size (c # cs) = 1 \<Longrightarrow> (of_char c :: int) < 128"
  by (auto simp: utf8_size_def utf8_lead_def split: if_splits)

lemma hex_char_val:
  assumes "0 \<le> d" and "d < 16"
  shows "hex_val (hex_char d) = Some d"
proof -
  have c: "(of_char (hex_char d) :: int) = (if d < 10 then 48 + d else 87 + d)"
    using assms by (simp add: hex_char_def)
  have "(97 :: int) OR 32 = 97" "(98 :: int) OR 32 = 98" "(99 :: int) OR 32 = 99" "(100 :: int) OR 32 = 100"
    "(101 :: int) OR 32 = 101" "(102 :: int) OR 32 = 102" by simp_all
  moreover have "d < 10 \<or> d = 10 \<or> d = 11 \<or> d = 12 \<or> d = 13 \<or> d = 14 \<or> d = 15"
    using assms by presburger
  ultimately show ?thesis
    using assms by (auto simp: hex_val_def digit_val_def is_digit_def lower_def c)
qed

lemma of_char_inject: "(of_char c :: int) = of_char d \<longleftrightarrow> c = d"
  by (rule of_char_eq_iff)

lemma show_char_raw: "128 \<le> (of_char c :: int) \<Longrightarrow> show_char c = [c]"
  by (auto simp: show_char_def)

lemma string_body_char:
  assumes "(of_char c :: int) < 128"
  shows "string_body (show_char c @ s) = map_option (\<lambda>(t, rest). (c # t, rest)) (string_body s)"
proof -
  let ?n = "of_char c :: int"
  have n: "0 \<le> ?n" by (metis of_nat_of_char of_nat_0_le_iff)
  consider "c = CHR 0x22 \<or> c = CHR 0x5C" | "c \<noteq> CHR 0x22" "c \<noteq> CHR 0x5C" "?n < 32"
    | "c \<noteq> CHR 0x22" "c \<noteq> CHR 0x5C" "32 \<le> ?n" by linarith
  then show ?thesis
  proof cases
    case 1
    then show ?thesis by (auto simp: show_char_def simple_escape_def)
  next
    case 2
    have "hex_val (hex_char (?n div 16)) = Some (?n div 16)" "hex_val (hex_char (?n mod 16)) = Some (?n mod 16)"
      using 2(3) n by (simp_all add: hex_char_val)
    moreover have "hex_val CHR ''0'' = Some 0"
      by (simp add: hex_val_def digit_val_def)
    ultimately have "hex4 (CHR ''0'' # CHR ''0'' # hex_char (?n div 16) # hex_char (?n mod 16) # s) = Some ?n"
      by (simp add: hex4_def)
    then show ?thesis
      using 2 by (simp add: show_char_def unicode_escape_def utf8_encode_def)
  next
    case 3
    then show ?thesis
      using assms by (simp add: show_char_def utf8_size_ascii)
  qed
qed

lemma string_body_sequence:
  assumes "2 \<le> utf8_size s" and "s \<noteq> []"
  shows "string_body (take (utf8_size s) s @ t) =
    map_option (\<lambda>(u, rest). (take (utf8_size s) s @ u, rest)) (string_body t)"
proof -
  let ?n = "utf8_size s"
  obtain c cs where s: "s = c # cs"
    using assms(2) by (cases s) auto
  obtain m where m: "?n = Suc m" "1 \<le> m"
    using assms(1) by (cases ?n) auto
  have l: "?n \<le> length s" and c: "128 \<le> (of_char c :: int)"
    using utf8_size_le [OF assms(2)] utf8_bytes [OF assms, of 0] assms(1) s by auto
  have size: "utf8_size (c # take m cs @ t) = Suc m"
    using utf8_size_take [OF assms(2), of t] assms(1) s m by simp
  have "take m cs @ t = take m cs @ t" and lm: "length (take m cs) = m"
    using l s m(1) by simp_all
  moreover have "c \<noteq> CHR 0x22" "c \<noteq> CHR 0x5C" "\<not> (of_char c :: int) < 32"
    using c by auto
  ultimately show ?thesis
    using s m(1) size by (simp add: Let_def)
qed

lemma string_body_show:
  "valid_utf8 s \<Longrightarrow> string_body (concat (map show_char s) @ CHR 0x22 # rest) = Some (s, rest)"
proof (induction s rule: valid_utf8.induct)
  case (2 c cs)
  let ?n = "utf8_size (c # cs)"
  have v: "?n \<noteq> 0" "valid_utf8 (drop (?n - 1) cs)"
    using "2.prems" by simp_all
  note IH = "2.IH" [OF v(2)]
  show ?case
  proof (cases "?n = 1")
    case True
    then have "string_body (concat (map show_char cs) @ CHR 0x22 # rest) = Some (cs, rest)"
      using IH by simp
    then show ?thesis
      using string_body_char [OF utf8_size_1 [OF True]] by simp
  next
    case False
    let ?h = "take ?n (c # cs)" and ?r = "drop (?n - 1) cs"
    have n2: "2 \<le> ?n" using v(1) False by simp
    have "map show_char ?h = map (\<lambda>x. [x]) ?h"
      using utf8_bytes [OF n2] utf8_size_le [of "c # cs"]
      by (intro map_cong refl show_char_raw) (auto simp: in_set_conv_nth simp del: take_Suc_Cons)
    then have h: "concat (map show_char ?h) = ?h"
      by (simp only: concat_map_singleton list.map_ident)
    have s: "c # cs = ?h @ ?r"
      using n2 by (cases ?n) simp_all
    have c: "concat (map show_char (c # cs)) = ?h @ concat (map show_char ?r)"
      by (subst s) (simp only: map_append concat_append h)
    have "string_body (?h @ concat (map show_char ?r) @ CHR 0x22 # rest) = Some (?h @ ?r, rest)"
      by (simp only: string_body_sequence [OF n2 list.distinct(2)] IH option.map prod.case)
    then show ?thesis
      by (simp only: c s [symmetric] append_assoc)
  qed
qed simp

section \<open>Numbers\<close>

lemma take_digits_append:
  "delimited rest \<Longrightarrow> take_digits s = (ds, r) \<Longrightarrow> take_digits (s @ rest) = (ds, r @ rest)"
proof (induction s arbitrary: ds)
  case Nil
  then show ?case by (cases rest) (auto simp: delimited_def)
next
  case (Cons c cs)
  then show ?case by (auto split: if_splits prod.splits)
qed

lemma some_digits_append:
  "delimited rest \<Longrightarrow> some_digits s = Some (ds, r) \<Longrightarrow> some_digits (s @ rest) = Some (ds, r @ rest)"
  by (auto simp: some_digits_def take_digits_append split: prod.splits if_splits)

lemma int_part_append:
  "delimited rest \<Longrightarrow> int_part s = Some (ds, r) \<Longrightarrow> int_part (s @ rest) = Some (ds, r @ rest)"
  using some_digits_append [of rest s] by (cases s) (auto simp: int_part_def split: if_splits)

lemma frac_part_append:
  assumes "delimited rest" and "frac_part s = Some (ds, r)"
  shows "frac_part (s @ rest) = Some (ds, r @ rest)"
proof (cases s)
  case Nil
  with assms show ?thesis by (cases rest) (auto simp: frac_part_def delimited_def)
next
  case (Cons c cs)
  with assms(2) show ?thesis
    by (auto simp: frac_part_def dest: some_digits_append [OF assms(1)] split: if_splits)
qed

lemma exp_part_append:
  assumes "delimited rest" and "exp_part s = Some (ds, r)"
  shows "exp_part (s @ rest) = Some (ds, r @ rest)"
proof (cases s)
  case Nil
  with assms show ?thesis by (cases rest) (auto simp: exp_part_def delimited_def)
next
  case (Cons c cs)
  with assms(2) show ?thesis
    by (cases cs) (auto simp: exp_part_def dest: some_digits_append [OF assms(1)] split: if_splits)
qed

lemma number_append:
  assumes "number_literal t" and "delimited rest"
  shows "parse_number (t @ rest) = Some (t, rest)"
proof -
  obtain sign s1 where s1: "sign_part t = (sign, s1)" by fastforce
  then obtain ip s2 fp s3 ep where p: "int_part s1 = Some (ip, s2)" "frac_part s2 = Some (fp, s3)"
      "exp_part s3 = Some (ep, [])" and t: "sign @ ip @ fp @ ep = t"
    using assms(1) by (auto simp: number_literal_def parse_number_def split: Option.bind_splits)
  have "t \<noteq> []"
    using p(1) s1 by (auto simp: int_part_def sign_part_def)
  then have "sign_part (t @ rest) = (sign, s1 @ rest)"
    using s1 by (auto simp: sign_part_def split: if_splits)
  then show ?thesis
    using int_part_append [OF assms(2) p(1)] frac_part_append [OF assms(2) p(2)]
      exp_part_append [OF assms(2) p(3)] t
    by (simp add: parse_number_def)
qed

lemma digit_char_0: "digit_char 0 = CHR ''0''"
  by code_simp

lemma some_digits_digits: "list_all is_digit t \<Longrightarrow> t \<noteq> [] \<Longrightarrow> some_digits t = Some (t, [])"
proof -
  have "list_all is_digit t \<Longrightarrow> take_digits t = (t, [])" for t
    by (induction t) auto
  then show "list_all is_digit t \<Longrightarrow> t \<noteq> [] \<Longrightarrow> some_digits t = Some (t, [])"
    by (simp add: some_digits_def)
qed

lemma int_part_show: "int_part (show_nat n) = Some (show_nat n, [])"
proof (cases "n = 0")
  case True
  then show ?thesis by (simp add: show_nat.simps [of 0] digit_char_0 int_part_def)
next
  case False
  then have "hd (show_nat n) \<noteq> CHR ''0''" by (simp add: show_nat_hd)
  then show ?thesis
    using some_digits_digits [OF show_nat_digits show_nat_not_Nil, of n]
    by (cases "show_nat n") (auto simp: int_part_def)
qed

lemma number_literal_show [simp]: "number_literal (show_int i)"
proof -
  have "frac_part [] = Some ([], [])" "exp_part [] = Some ([], [])"
    by (simp_all add: frac_part_def exp_part_def)
  moreover have "hd (show_nat n) \<noteq> CHR ''-''" for n
    using hd_show_nat [of n] by auto
  ultimately show ?thesis
    by (simp add: number_literal_def parse_number_def sign_part_def show_int_def int_part_show)
qed

section \<open>Values\<close>

lemma skip_ws_append: "list_all is_ws ws \<Longrightarrow> skip_ws (ws @ s) = skip_ws s"
  by (induction ws) simp_all

definition starts :: "string \<Rightarrow> bool" where
  \<comment> \<open>a non-empty text that starts neither with white space nor with a closing bracket\<close>
  "starts s \<longleftrightarrow> s \<noteq> [] \<and> \<not> is_ws (hd s) \<and> hd s \<notin> {CHR '']'', CHR ''}''}"

lemma skip_ws_starts: "starts s \<Longrightarrow> skip_ws (s @ t) = s @ t"
  by (cases s) (simp_all add: starts_def)

lemma delimited_ws: "list_all is_ws ws \<Longrightarrow> delimited s \<Longrightarrow> delimited (ws @ s)"
  by (cases ws) (auto simp: delimited_def is_ws_def is_digit_def)

lemma delimited_Cons [simp]:
  "delimited (CHR '','' # s)" "delimited (CHR '']'' # s)" "delimited (CHR ''}'' # s)" "delimited (CHR '':'' # s)"
  by (simp_all add: delimited_def is_digit_def)

lemma not_ws [simp]:
  "\<not> is_ws CHR '',''" "\<not> is_ws CHR '']''" "\<not> is_ws CHR ''}''" "\<not> is_ws CHR '':''" "\<not> is_ws CHR 0x22"
  by (simp_all add: is_ws_def)

lemma items_show:
  assumes "list_all is_ws ws" and "close \<in> {CHR '']'', CHR ''}''}"
    and "\<And>x r. x \<in> set xs \<Longrightarrow> delimited r \<Longrightarrow> starts (f x) \<and> p (f x @ r) = Some (x, r)"
    and "xs \<noteq> []" and "list_all is_ws w"
  shows "items p close (w @ separated ws (map f xs) @ close # rest) = Some (xs, rest)"
  using assms(3-5)
proof (induction xs arbitrary: w)
  case (Cons x xs)
  have close: "delimited (close # s)" "\<not> is_ws close" "close \<noteq> CHR '',''" for s
    using assms(2) by auto
  show ?case
  proof (cases xs)
    case Nil
    have "delimited (ws @ close # rest)"
      using assms(1) close(1) by (rule delimited_ws)
    with Cons.prems(1) [of x "ws @ close # rest"] Nil close(2) Cons.prems(3) assms(1) show ?thesis
      by (simp add: items.simps [of p] skip_ws_starts skip_ws_append)
  next
    case (Cons y ys)
    let ?r = "ws @ separated ws (map f (y # ys)) @ close # rest"
    have "delimited (ws @ CHR '','' # ?r)"
      using assms(1) by (rule delimited_ws) simp
    moreover have "items p close ?r = Some (y # ys, rest)"
      using Cons.IH [of ws] Cons.prems(1) Cons assms(1) by auto
    ultimately show ?thesis
      using Cons.prems(1) [of x "ws @ CHR '','' # ?r"] Cons close(3) Cons.prems(3) assms(1)
      by (simp add: items.simps [of p close "w @ _"] skip_ws_starts skip_ws_append)
  qed
qed simp

lemma container_show:
  assumes "list_all is_ws ws" and "close \<in> {CHR '']'', CHR ''}''}"
    and "\<And>x r. x \<in> set xs \<Longrightarrow> delimited r \<Longrightarrow> starts (f x) \<and> p (f x @ r) = Some (x, r)"
  shows "container p close (ws @ separated ws (map f xs) @ close # rest) = Some (xs, rest)"
proof (cases "xs = []")
  case True
  then show ?thesis
    using assms(1,2) by (auto simp: container_def skip_ws_append)
next
  case False
  then obtain y ys where xs: "xs = y # ys" by (cases xs) auto
  have y: "starts (f y)"
    using assms(3) [of y "[]"] xs by (simp add: delimited_def)
  then obtain c cs where c: "f y = c # cs" "c \<noteq> close"
    using assms(2) by (cases "f y") (auto simp: starts_def)
  obtain t where t: "separated ws (map f xs) = f y @ t"
    using xs by (cases ys) auto
  have "items p close (separated ws (map f xs) @ close # rest) = Some (xs, rest)"
    using items_show [of ws close xs f p "[]" rest] assms False by simp
  then show ?thesis
    using skip_ws_starts [OF y, of "t @ close # rest"] c assms(1)
    by (simp add: container_def skip_ws_append t)
qed

lemma starts_string: "starts (show_string s)"
  by (simp add: starts_def show_string_def)

lemma number_head:
  assumes "number_literal t"
  shows "t \<noteq> []" and "hd t = CHR ''-'' \<or> is_digit (hd t)"
proof -
  obtain sign s1 ip s2 where s1: "sign_part t = (sign, s1)" and i: "int_part s1 = Some (ip, s2)"
    using assms by (auto simp: number_literal_def parse_number_def split: Option.bind_splits prod.splits)
  have "s1 \<noteq> []" "hd s1 = CHR ''0'' \<or> is_digit (hd s1)"
    using i by (auto simp: int_part_def some_digits_def split: list.splits if_splits prod.splits)
  then show "t \<noteq> []" and "hd t = CHR ''-'' \<or> is_digit (hd t)"
    using s1 by (auto simp: sign_part_def split: if_splits)
qed

lemma starts_number: "number_literal t \<Longrightarrow> starts t"
  using number_head [of t] by (auto simp: starts_def is_ws_def is_digit_def)

lemma starts_json: "json_ok d v \<Longrightarrow> starts (show_json ws v)"
  by (cases v) (auto simp: starts_string starts_number, auto simp: starts_def is_ws_def)

lemma member_show:
  assumes "list_all is_ws ws" and "valid_utf8 k" and "starts v" and "p (v @ r) = Some (x, r)"
  shows "member p ((show_string k @ ws @ CHR '':'' # ws @ v) @ r) = Some ((k, x), r)"
  using assms
  by (simp add: member_def show_string_def string_body_show skip_ws_append skip_ws_starts)

lemma parse_show:
  assumes "list_all is_ws ws"
  shows "json_ok d v \<Longrightarrow> delimited rest \<Longrightarrow> parse_value d (show_json ws v @ rest) = Some (v, rest)"
proof (induction v arbitrary: d rest)
  case (JNum t)
  have "t \<noteq> []" and "hd t \<notin> {CHR ''{'', CHR ''['', CHR 0x22, CHR ''t'', CHR ''f'', CHR ''n''}"
    using number_head [of t] JNum.prems(1) by (auto simp: is_digit_def)
  then show ?case
    using number_append [of t rest] JNum.prems by (cases t) (simp_all add: parse_value.simps)
next
  case (JStr s)
  then show ?case
    by (simp add: parse_value.simps show_string_def string_body_show)
next
  case (JArr xs)
  have "container (\<lambda>t. parse_value (d + 1) t) CHR '']'' (ws @ separated ws (map (show_json ws) xs) @ CHR '']'' # rest) =
      Some (xs, rest)"
    using JArr assms by (intro container_show) (auto simp: starts_json)
  then show ?case
    using JArr.prems(1) by (simp add: parse_value.simps [of d])
next
  case (JObj ms)
  have "container (member (\<lambda>t. parse_value (d + 1) t)) CHR ''}''
      (ws @ separated ws (map (\<lambda>(k, v). show_string k @ ws @ CHR '':'' # ws @ show_json ws v) ms) @ CHR ''}'' # rest) =
      Some (ms, rest)"
  proof (rule container_show [OF assms])
    fix m r
    assume m: "m \<in> set ms" and r: "delimited r"
    obtain k v where kv: "m = (k, v)" by (cases m)
    have ok: "valid_utf8 k" "json_ok (d + 1) v"
      using JObj.prems(1) m kv by auto
    have "parse_value (d + 1) (show_json ws v @ r) = Some (v, r)"
      using JObj.IH [of m v "d + 1" r] m kv ok r by simp
    then have "member (\<lambda>t. parse_value (d + 1) t)
        ((show_string k @ ws @ CHR '':'' # ws @ show_json ws v) @ r) = Some ((k, v), r)"
      by (intro member_show [OF assms ok(1) starts_json [OF ok(2)]])
    then show "starts (case m of (k, v) \<Rightarrow> show_string k @ ws @ CHR '':'' # ws @ show_json ws v) \<and>
      member (\<lambda>t. parse_value (d + 1) t) ((case m of (k, v) \<Rightarrow> show_string k @ ws @ CHR '':'' # ws @ show_json ws v) @ r) =
      Some (m, r)"
      using starts_string [of k] by (simp add: kv starts_def show_string_def)
  qed simp
  then show ?case
    using JObj.prems(1) by (simp add: parse_value.simps [of d])
qed (simp_all add: parse_value.simps)

lemma parse_json_show:
  assumes "list_all is_ws ws" and "json_ok 0 v"
  shows "parse_json (ws @ show_json ws v @ ws) = Some v"
proof -
  have "delimited ws"
    using delimited_ws [OF assms(1), of "[]"] by (simp add: delimited_def)
  moreover have "skip_ws ws = []"
    using skip_ws_append [OF assms(1), of "[]"] by simp
  ultimately show ?thesis
    using parse_show [OF assms] starts_json [OF assms(2), of ws] assms(1)
    by (simp add: parse_json_def skip_ws_append skip_ws_starts)
qed

end
