(* ===== verification/Config_Json.thy ===== *)
theory Config_Json
  imports Json_Print Relay_Config "HOL-Library.AList"
begin

text \<open>
  The configuration file as JSON: what \<open>json.Unmarshal\<close> makes of a text for the types \<open>jsonRoot\<close>,
  \<open>jsonGlobal\<close> and \<open>jsonIface\<close> of \<open>internal/relay/config.go\<close>. Members are matched to fields
  without regard to case, unknown members are ignored, \<open>null\<close> clears a pointer or a map and leaves
  anything else alone, a repeated member is decoded on top of what is there, and any value of the
  wrong type is an error. The order in which Go ranges over the decoded map is a parameter.
\<close>

section \<open>Decoding\<close>

definition upper :: "char \<Rightarrow> char" where
  "upper c = (if 97 \<le> (of_char c :: int) \<and> (of_char c :: int) \<le> 122 then char_of (of_char c - 32 :: int) else c)"

function fold_name :: "string \<Rightarrow> string" where
  \<comment> \<open>\<open>foldName\<close>, where it matters for names in ASCII: the letters, the long s (U+017F) and the
    Kelvin sign (U+212A), the only other runes that fold to ASCII\<close>
  "fold_name [] = []"
| "fold_name (c # cs) =
     (if c = CHR 0xC5 \<and> take 1 cs = [CHR 0xBF] then CHR ''S'' # fold_name (drop 1 cs)
      else if c = CHR 0xE2 \<and> take 2 cs = [CHR 0x84, CHR 0xAA] then CHR ''K'' # fold_name (drop 2 cs)
      else upper c # fold_name cs)"
  by pat_completeness auto
termination by (relation "measure length") auto

definition is_field :: "string \<Rightarrow> string \<Rightarrow> bool" where
  "is_field name key \<longleftrightarrow> fold_name key = fold_name name"

text \<open>The pointer tags: \<open>None\<close> is the error, \<open>Some None\<close> the nil pointer.\<close>

definition decode_int :: "json \<Rightarrow> int option option" where
  "decode_int v = (case v of
     JNull \<Rightarrow> Some None
   | JNum t \<Rightarrow> map_option Some (ParseInt 10 t)
   | _ \<Rightarrow> None)"

definition decode_string :: "json \<Rightarrow> string option option" where
  "decode_string v = (case v of JNull \<Rightarrow> Some None | JStr t \<Rightarrow> Some (Some t) | _ \<Rightarrow> None)"

definition decode_bool :: "json \<Rightarrow> bool option option" where
  "decode_bool v = (case v of JNull \<Rightarrow> Some None | JBool b \<Rightarrow> Some (Some b) | _ \<Rightarrow> None)"

definition decode_struct :: "(string \<times> json \<Rightarrow> 'r \<Rightarrow> 'r option) \<Rightarrow> json \<Rightarrow> 'r \<Rightarrow> 'r option" where
  \<comment> \<open>an object is decoded member by member, \<open>null\<close> changes nothing, anything else is an error\<close>
  "decode_struct mem v r = (case v of
     JNull \<Rightarrow> Some r
   | JObj ms \<Rightarrow> fold_opt mem ms r
   | _ \<Rightarrow> None)"

definition empty_global :: jsonGlobal where
  "empty_global = \<lparr>jg_LogLevel = None, jg_StaleClientSweepIntervalSeconds = None\<rparr>"

definition global_member :: "string \<times> json \<Rightarrow> jsonGlobal \<Rightarrow> jsonGlobal option" where
  "global_member m g = (case m of (key, v) \<Rightarrow>
     if is_field ''log_level'' key then map_option (\<lambda>n. g\<lparr>jg_LogLevel := n\<rparr>) (decode_int v)
     else if is_field ''stale_client_sweep_interval_seconds'' key
     then map_option (\<lambda>n. g\<lparr>jg_StaleClientSweepIntervalSeconds := n\<rparr>) (decode_int v)
     else Some g)"

definition empty_iface :: jsonIface where
  "empty_iface = \<lparr>ji_Ifname = None, ji_Master = None, ji_ArpproxyRouting = None\<rparr>"

definition iface_member :: "string \<times> json \<Rightarrow> jsonIface \<Rightarrow> jsonIface option" where
  "iface_member m i = (case m of (key, v) \<Rightarrow>
     if is_field ''ifname'' key then map_option (\<lambda>x. i\<lparr>ji_Ifname := x\<rparr>) (decode_string v)
     else if is_field ''master'' key then map_option (\<lambda>x. i\<lparr>ji_Master := x\<rparr>) (decode_bool v)
     else if is_field ''arpproxy_routing'' key then map_option (\<lambda>x. i\<lparr>ji_ArpproxyRouting := x\<rparr>) (decode_bool v)
     else Some i)"

definition map_member :: "string \<times> json \<Rightarrow> (string \<times> jsonIface) list \<Rightarrow> (string \<times> jsonIface) list option" where
  \<comment> \<open>every element of the map is decoded into a fresh value\<close>
  "map_member m ifs = (case m of (key, v) \<Rightarrow>
     map_option (\<lambda>i. AList.update key i ifs) (decode_struct iface_member v empty_iface))"

definition empty_root :: jsonRoot where
  "empty_root = \<lparr>jr_Global = None, jr_Interfaces = []\<rparr>"

definition root_member :: "string \<times> json \<Rightarrow> jsonRoot \<Rightarrow> jsonRoot option" where
  "root_member m r = (case m of (key, v) \<Rightarrow>
     if is_field ''global'' key then
       (if v = JNull then Some (r\<lparr>jr_Global := None\<rparr>)
        else map_option (\<lambda>g. r\<lparr>jr_Global := Some g\<rparr>)
               (decode_struct global_member v (case jr_Global r of None \<Rightarrow> empty_global | Some g \<Rightarrow> g)))
     else if is_field ''interfaces'' key then
       (if v = JNull then Some (r\<lparr>jr_Interfaces := []\<rparr>)
        else map_option (\<lambda>ifs. r\<lparr>jr_Interfaces := ifs\<rparr>) (decode_struct map_member v (jr_Interfaces r)))
     else Some r)"

definition decode_root :: "json \<Rightarrow> jsonRoot option" where
  "decode_root v = decode_struct root_member v empty_root"

type_synonym range_order = "(string \<times> jsonIface) list \<Rightarrow> (string \<times> jsonIface) list"

definition text_of :: "bytes \<Rightarrow> string" where
  "text_of dat = map (\<lambda>b. char_of (uint b)) dat"

definition Unmarshal :: "range_order \<Rightarrow> unmarshal" where
  \<comment> \<open>the texts of the errors are only ever logged\<close>
  "Unmarshal order dat = (case parse_json (text_of dat) of
     None \<Rightarrow> Inl ''invalid JSON''
   | Some v \<Rightarrow>
       (case decode_root v of
          None \<Rightarrow> Inl ''cannot unmarshal''
        | Some root \<Rightarrow> Inr (root\<lparr>jr_Interfaces := order (jr_Interfaces root)\<rparr>)))"

section \<open>Encoding, the reference\<close>

definition optional :: "string \<Rightarrow> ('a \<Rightarrow> json) \<Rightarrow> 'a option \<Rightarrow> (string \<times> json) list" where
  "optional key f x = (case x of None \<Rightarrow> [] | Some y \<Rightarrow> [(key, f y)])"

definition encode_global :: "jsonGlobal \<Rightarrow> json" where
  "encode_global g = JObj (optional ''log_level'' (\<lambda>n. JNum (show_int n)) (jg_LogLevel g) @
     optional ''stale_client_sweep_interval_seconds'' (\<lambda>n. JNum (show_int n)) (jg_StaleClientSweepIntervalSeconds g))"

definition encode_iface :: "jsonIface \<Rightarrow> json" where
  "encode_iface i = JObj (optional ''ifname'' JStr (ji_Ifname i) @ optional ''master'' JBool (ji_Master i) @
     optional ''arpproxy_routing'' JBool (ji_ArpproxyRouting i))"

definition encode_root :: "jsonRoot \<Rightarrow> json" where
  "encode_root r = JObj (optional ''global'' encode_global (jr_Global r) @
     [(''interfaces'', JObj (map (\<lambda>(n, i). (n, encode_iface i)) (jr_Interfaces r)))])"

definition opt_all :: "('a \<Rightarrow> bool) \<Rightarrow> 'a option \<Rightarrow> bool" where
  [simp]: "opt_all P x = (case x of None \<Rightarrow> True | Some y \<Rightarrow> P y)"

definition int64 :: "int \<Rightarrow> bool" where
  "int64 n \<longleftrightarrow> - (2 ^ 63) \<le> n \<and> n < 2 ^ 63"

definition root_ok :: "jsonRoot \<Rightarrow> bool" where
  \<comment> \<open>what a Go value of this type can hold, with text in UTF-8\<close>
  "root_ok r \<longleftrightarrow>
     opt_all (\<lambda>g. opt_all int64 (jg_LogLevel g) \<and>
        opt_all int64 (jg_StaleClientSweepIntervalSeconds g)) (jr_Global r) \<and>
     distinct (map fst (jr_Interfaces r)) \<and>
     (\<forall>(n, i) \<in> set (jr_Interfaces r). valid_utf8 n \<and> opt_all valid_utf8 (ji_Ifname i))"

definition bytes_of :: "string \<Rightarrow> bytes" where
  "bytes_of s = map (\<lambda>c. word_of_int (of_char c)) s"

lemma text_of_bytes_of [simp]: "text_of (bytes_of s) = s"
proof -
  have "char_of (uint (word_of_int (of_char c) :: byte)) = c" for c :: char
    by (simp add: uint_word_of_int take_bit_eq_mod [symmetric])
  then show ?thesis by (simp add: text_of_def bytes_of_def map_idI)
qed

section \<open>Decoding what was encoded\<close>

lemma is_field_same [simp]: "is_field name name"
  by (simp add: is_field_def)

lemma is_field_other [simp]:
  "\<not> is_field ''log_level'' ''stale_client_sweep_interval_seconds''"
  "\<not> is_field ''ifname'' ''master''" "\<not> is_field ''ifname'' ''arpproxy_routing''"
  "\<not> is_field ''master'' ''arpproxy_routing''" "\<not> is_field ''global'' ''interfaces''"
  by code_simp+

lemma fold_opt_optional:
  "fold_opt f (optional key g x @ ms) r = (case x of
     None \<Rightarrow> fold_opt f ms r | Some y \<Rightarrow> Option.bind (f (key, g y) r) (fold_opt f ms))"
  by (simp add: optional_def split: option.split)

lemmas fold_opt_last = fold_opt_optional [where ms = "[]", simplified]

lemma decode_int_encode: "int64 n \<Longrightarrow> decode_int (JNum (show_int n)) = Some (Some n)"
  by (simp add: decode_int_def int64_def ParseInt_show)

lemma decode_encode_global:
  assumes "opt_all int64 (jg_LogLevel g)" and "opt_all int64 (jg_StaleClientSweepIntervalSeconds g)"
  shows "decode_struct global_member (encode_global g) empty_global = Some g"
  using assms
  by (cases g; cases "jg_LogLevel g"; cases "jg_StaleClientSweepIntervalSeconds g")
    (simp_all add: decode_struct_def encode_global_def fold_opt_optional fold_opt_last global_member_def
      empty_global_def decode_int_encode)

lemma decode_encode_iface: "decode_struct iface_member (encode_iface i) empty_iface = Some i"
  by (cases i; cases "ji_Ifname i"; cases "ji_Master i"; cases "ji_ArpproxyRouting i")
    (simp_all add: decode_struct_def encode_iface_def fold_opt_optional fold_opt_last iface_member_def
      empty_iface_def decode_string_def decode_bool_def)

lemma update_new: "n \<notin> fst ` set xs \<Longrightarrow> AList.update n i xs = xs @ [(n, i)]"
  by (induction xs) auto

lemma decode_encode_ifaces:
  "distinct (map fst (acc @ ifs)) \<Longrightarrow>
   fold_opt map_member (map (\<lambda>(n, i). (n, encode_iface i)) ifs) acc = Some (acc @ ifs)"
proof (induction ifs arbitrary: acc)
  case (Cons x ifs)
  obtain n i where x: "x = (n, i)" by (cases x)
  have "AList.update n i acc = acc @ [(n, i)]"
    using Cons.prems x by (intro update_new) auto
  then show ?case
    using Cons.IH [of "acc @ [(n, i)]"] Cons.prems x
    by (simp add: map_member_def decode_encode_iface)
qed simp

lemma decode_encode_root:
  assumes "root_ok r"
  shows "decode_root (encode_root r) = Some r"
proof -
  have "fold_opt map_member (map (\<lambda>(n, i). (n, encode_iface i)) (jr_Interfaces r)) [] = Some (jr_Interfaces r)"
    using decode_encode_ifaces [of "[]"] assms by (simp add: root_ok_def)
  moreover have "\<And>g. jr_Global r = Some g \<Longrightarrow> decode_struct global_member (encode_global g) empty_global = Some g"
    using assms by (simp add: root_ok_def decode_encode_global)
  moreover have "encode_global g \<noteq> JNull" for g
    by (simp add: encode_global_def)
  ultimately show ?thesis
    by (cases r; cases "jr_Global r")
      (simp_all add: decode_root_def decode_struct_def [of root_member] decode_struct_def [of map_member]
        encode_root_def fold_opt_optional root_member_def empty_root_def)
qed

lemma valid_ascii: "list_all (\<lambda>c. (of_char c :: int) < 128) s \<Longrightarrow> valid_utf8 s"
  by (induction s) (simp_all add: utf8_size_ascii)

lemma json_ok_encode:
  assumes "root_ok r"
  shows "json_ok 0 (encode_root r)"
proof -
  have "valid_utf8 ''global''" "valid_utf8 ''interfaces''" "valid_utf8 ''log_level''" "valid_utf8 ''ifname''"
    "valid_utf8 ''master''" "valid_utf8 ''arpproxy_routing''" "valid_utf8 ''stale_client_sweep_interval_seconds''"
    by (rule valid_ascii; code_simp)+
  moreover from this have i: "json_ok 2 (encode_iface i)" if "opt_all valid_utf8 (ji_Ifname i)" for i
    using that by (cases "ji_Ifname i")
      (auto simp: encode_iface_def optional_def simp del: valid_utf8.simps split: option.splits)
  ultimately show ?thesis
    using assms
    by (cases "jr_Global r")
      (auto simp: root_ok_def encode_root_def encode_global_def optional_def i simp del: valid_utf8.simps
        split: option.splits)
qed



section \<open>What matters of a file\<close>

definition normalise :: "(string \<times> (json \<Rightarrow> json)) list \<Rightarrow> json \<Rightarrow> json" where
  \<comment> \<open>drops unknown members and spells the names of the known ones as the field tags do\<close>
  "normalise tags v = (case v of
     JObj ms \<Rightarrow> JObj (List.map_filter (\<lambda>(k, w). map_option (\<lambda>(name, f). (name, f w))
       (find (\<lambda>(name, f). is_field name k) tags)) ms)
   | _ \<Rightarrow> v)"

definition normal_global :: "json \<Rightarrow> json" where
  "normal_global = normalise [(''log_level'', \<lambda>v. v), (''stale_client_sweep_interval_seconds'', \<lambda>v. v)]"

definition normal_iface :: "json \<Rightarrow> json" where
  "normal_iface = normalise [(''ifname'', \<lambda>v. v), (''master'', \<lambda>v. v), (''arpproxy_routing'', \<lambda>v. v)]"

definition normal_map :: "json \<Rightarrow> json" where
  "normal_map v = (case v of JObj ms \<Rightarrow> JObj (map (\<lambda>(k, w). (k, normal_iface w)) ms) | _ \<Rightarrow> v)"

definition normal_root :: "json \<Rightarrow> json" where
  "normal_root = normalise [(''global'', normal_global), (''interfaces'', normal_map)]"

lemma decode_normalise:
  assumes "\<And>k v r. mem (k, v) r = (case find (\<lambda>(name, f). is_field name k) tags of
      None \<Rightarrow> Some r | Some (name, f) \<Rightarrow> mem (name, f v) r)"
  shows "decode_struct mem (normalise tags v) r = decode_struct mem v r"
proof -
  have "fold_opt mem (List.map_filter (\<lambda>(k, w). map_option (\<lambda>(name, f). (name, f w))
      (find (\<lambda>(name, f). is_field name k) tags)) ms) r = fold_opt mem ms r" for ms
  proof (induction ms arbitrary: r)
    case (Cons m ms)
    obtain k w where m: "m = (k, w)" by (cases m)
    let ?norm = "List.map_filter (\<lambda>(k, w). map_option (\<lambda>(name, f). (name, f w)) (find (\<lambda>(name, f). is_field name k) tags))"
    have "fold_opt mem (?norm ms) = fold_opt mem ms"
      by (rule ext) (rule Cons.IH)
    then show ?case
      using assms [of k w r]
      by (cases "find (\<lambda>(name, f). is_field name k) tags")
        (auto simp: m List.map_filter_simps split: prod.splits)
  qed (simp add: List.map_filter_simps)
  then show ?thesis
    by (simp add: decode_struct_def normalise_def split: json.split)
qed

lemma normalise_JNull [simp]: "normalise tags v = JNull \<longleftrightarrow> v = JNull"
  by (simp add: normalise_def split: json.split)

lemma decode_normal_iface: "decode_struct iface_member (normal_iface v) r = decode_struct iface_member v r"
  unfolding normal_iface_def by (rule decode_normalise) (simp add: iface_member_def)

lemma decode_normal_global: "decode_struct global_member (normal_global v) r = decode_struct global_member v r"
  unfolding normal_global_def by (rule decode_normalise) (simp add: global_member_def)

lemma decode_normal_map: "decode_struct map_member (normal_map v) r = decode_struct map_member v r"
proof -
  have "fold_opt map_member (map (\<lambda>(k, w). (k, normal_iface w)) ms) r = fold_opt map_member ms r" for ms
    by (induction ms arbitrary: r) (auto simp: map_member_def decode_normal_iface intro!: bind_option_cong)
  then show ?thesis
    by (simp add: decode_struct_def normal_map_def split: json.split)
qed

lemma decode_normal_root: "decode_root (normal_root v) = decode_root v"
proof -
  have n: "normal_global v = JNull \<longleftrightarrow> v = JNull" "normal_map v = JNull \<longleftrightarrow> v = JNull" for v
    by (simp_all add: normal_global_def normal_map_def split: json.split)
  show ?thesis
    unfolding decode_root_def normal_root_def
    by (rule decode_normalise)
      (simp add: root_member_def n decode_normal_global decode_normal_map)
qed

lemma fold_opt_None:
  assumes "\<And>m r. mem m r = None \<longleftrightarrow> ill m"
  shows "fold_opt mem ms r = None \<longleftrightarrow> list_ex ill ms"
proof (induction ms arbitrary: r)
  case (Cons m ms)
  then show ?case
    using assms [of m r] by (cases "mem m r") auto
qed simp

section \<open>Values of the wrong type\<close>

definition ill_int :: "json \<Rightarrow> bool" where
  "ill_int v = (case v of JNull \<Rightarrow> False | JNum t \<Rightarrow> ParseInt 10 t = None | _ \<Rightarrow> True)"

definition ill_string :: "json \<Rightarrow> bool" where
  "ill_string v = (case v of JNull \<Rightarrow> False | JStr t \<Rightarrow> False | _ \<Rightarrow> True)"

definition ill_bool :: "json \<Rightarrow> bool" where
  "ill_bool v = (case v of JNull \<Rightarrow> False | JBool b \<Rightarrow> False | _ \<Rightarrow> True)"

definition ill_object :: "(string \<times> json \<Rightarrow> bool) \<Rightarrow> json \<Rightarrow> bool" where
  \<comment> \<open>neither \<open>null\<close> nor an object whose members are all in order\<close>
  "ill_object ill v = (case v of JNull \<Rightarrow> False | JObj ms \<Rightarrow> list_ex ill ms | _ \<Rightarrow> True)"

definition ill_global_member :: "string \<times> json \<Rightarrow> bool" where
  "ill_global_member m \<longleftrightarrow>
     (is_field ''log_level'' (fst m) \<or> is_field ''stale_client_sweep_interval_seconds'' (fst m)) \<and> ill_int (snd m)"

definition ill_iface_member :: "string \<times> json \<Rightarrow> bool" where
  "ill_iface_member m \<longleftrightarrow> is_field ''ifname'' (fst m) \<and> ill_string (snd m) \<or>
     (is_field ''master'' (fst m) \<or> is_field ''arpproxy_routing'' (fst m)) \<and> ill_bool (snd m)"

definition ill_root :: "json \<Rightarrow> bool" where
  "ill_root = ill_object (\<lambda>m.
     is_field ''global'' (fst m) \<and> ill_object ill_global_member (snd m) \<or>
     is_field ''interfaces'' (fst m) \<and> ill_object (\<lambda>m. ill_object ill_iface_member (snd m)) (snd m))"

lemma is_field_exclusive:
  "is_field ''log_level'' k \<Longrightarrow> \<not> is_field ''stale_client_sweep_interval_seconds'' k"
  "is_field ''ifname'' k \<Longrightarrow> \<not> is_field ''master'' k"
  "is_field ''ifname'' k \<Longrightarrow> \<not> is_field ''arpproxy_routing'' k"
  "is_field ''master'' k \<Longrightarrow> \<not> is_field ''arpproxy_routing'' k"
  "is_field ''global'' k \<Longrightarrow> \<not> is_field ''interfaces'' k"
  using is_field_other unfolding is_field_def by (simp_all del: fold_name.simps)

lemma decode_int_None [simp]: "decode_int v = None \<longleftrightarrow> ill_int v"
  by (simp add: decode_int_def ill_int_def split: json.split)

lemma decode_string_None [simp]: "decode_string v = None \<longleftrightarrow> ill_string v"
  by (simp add: decode_string_def ill_string_def split: json.split)

lemma decode_bool_None [simp]: "decode_bool v = None \<longleftrightarrow> ill_bool v"
  by (simp add: decode_bool_def ill_bool_def split: json.split)

lemma decode_struct_None:
  assumes "\<And>m r. mem m r = None \<longleftrightarrow> ill m"
  shows "decode_struct mem v r = None \<longleftrightarrow> ill_object ill v"
  using fold_opt_None [of mem ill, OF assms] by (simp add: decode_struct_def ill_object_def split: json.split)

lemma decode_global_None: "decode_struct global_member v g = None \<longleftrightarrow> ill_object ill_global_member v"
  by (rule decode_struct_None) (auto simp: global_member_def ill_global_member_def is_field_exclusive split: prod.split)

lemma decode_iface_None: "decode_struct iface_member v i = None \<longleftrightarrow> ill_object ill_iface_member v"
  by (rule decode_struct_None) (auto simp: iface_member_def ill_iface_member_def is_field_exclusive split: prod.split)

lemma decode_map_None:
  "decode_struct map_member v m = None \<longleftrightarrow> ill_object (\<lambda>m. ill_object ill_iface_member (snd m)) v"
  by (rule decode_struct_None) (auto simp: map_member_def decode_iface_None)

lemma ill_JNull [simp]: "\<not> ill_object ill JNull"
  by (simp add: ill_object_def)

lemma decode_root_None: "decode_root v = None \<longleftrightarrow> ill_root v"
  unfolding decode_root_def ill_root_def
  by (rule decode_struct_None)
    (auto simp: root_member_def decode_global_None decode_map_None is_field_exclusive split: prod.split)

lemma Unmarshal_error:
  "(\<exists>e. Unmarshal order dat = Inl e) \<longleftrightarrow>
     (case parse_json (text_of dat) of None \<Rightarrow> True | Some v \<Rightarrow> ill_root v)"
  by (auto simp: Unmarshal_def decode_root_None [symmetric] split: option.split)

end
