(* ===== verification/Config_File.thy ===== *)
theory Config_File
  imports Config_Json Reload_Effects "HOL-Library.Multiset"
begin

text \<open>
  From the text of the configuration file to the daemon: what \<open>Reload\<close> makes of a file that is JSON
  of the right shape, of one that is not, and which parts of a file do not matter.
\<close>

section \<open>The global settings\<close>

definition globals :: "state \<Rightarrow> int \<times> 64 word" where
  "globals s = (logLevel s, staleClientSweepInterval s)"

lemma globals_refresh [simp]:
  "logLevel (refreshInterfaceAddresses E r s) = logLevel s"
  "staleClientSweepInterval (refreshInterfaceAddresses E r s) = staleClientSweepInterval s"
  by (simp_all add: refreshInterfaceAddresses_def case_prod_beta)

lemma globals_parse: "globals (snd (parseInterfaceJSON E name obj s)) = globals s"
proof -
  obtain r t where f: "findOrCreateInterface name s = (r, t)" by fastforce
  have "globals t = globals s"
    using f by (auto simp: findOrCreateInterface_def setInterfaceDefaults_def Let_def globals_def
        split: option.splits)
  then show ?thesis
    by (simp add: parseInterfaceJSON_def f Let_def adoptLink_def globals_def split: option.split sum.split)
qed

lemma globals_parsed: "globals (parsed E objs s) = globals s"
  unfolding parsed_def by (rule fold_frame [where p = globals]) (simp add: case_prod_beta globals_parse)

lemma globals_applyIface: "globals (applyIface E r s) = globals s"
  by (simp add: applyIface_def closeInterface_def globals_def Let_def)

lemma globals_Reload:
  assumes "state_ok s" and "file_root E unm cfg s = Some root"
  shows "globals (Reload E unm cfg s) = globals (applyGlobal cfg root s)"
proof -
  let ?f = "fold resetIface (iface_refs s) s"
  have f: "globals ?f = globals s"
    by (rule fold_frame [where p = globals]) (simp add: resetIface_alt globals_def)
  have "globals (fold (applyIface E) rs t) = globals t" for rs t
    by (rule fold_frame [where p = globals]) (rule globals_applyIface)
  moreover have "globals (plan_of t) = globals t" for t
  proof -
    have "globals (fold (\<lambda>r. set_iface r g) rs u) = globals u" for g rs u
      by (rule fold_frame [where p = globals]) (simp add: globals_def)
    moreover have "globals (scheduleMirrorSweep t) = globals t"
      by (simp add: scheduleMirrorSweep_def startMirrorSweep_def globals_def Let_def)
    ultimately show ?thesis
      by (simp add: plan_of_def Let_def)
  qed
  ultimately have "globals (Reload E unm cfg s) = globals (loaded E unm cfg s)"
    by (simp add: Reload_plan reload_plan_alt)
  also have "\<dots> = globals (applyGlobal cfg root (issue (ReadFile (ConfigFile cfg)) ?f))"
    using assms(2) by (simp add: loadConfigJSON_eq file_root_reset [OF assms(1)] globals_parsed)
  also have "\<dots> = globals (applyGlobal cfg root s)"
    using f by (auto simp: applyGlobal_def globals_def Let_def split: option.split)
  finally show ?thesis .
qed

section \<open>A file of the right shape\<close>

definition holds_config :: "string \<Rightarrow> jsonRoot \<Rightarrow> bool" where
  \<comment> \<open>the text is JSON whose known members, under whatever capitalisation, spell out the configuration\<close>
  "holds_config s root \<longleftrightarrow> root_ok root \<and> map_option normal_root (parse_json s) = Some (encode_root root)"

lemma file_root_text:
  assumes "ans_readFile E (trace s) (ConfigFile cfg) = Inr (bytes_of text)" and "holds_config text root"
  shows "file_root E (Unmarshal order) cfg s = Some (root\<lparr>jr_Interfaces := order (jr_Interfaces root)\<rparr>)"
proof -
  obtain v where v: "parse_json text = Some v" "normal_root v = encode_root root" "root_ok root"
    using assms(2) by (auto simp: holds_config_def)
  then have "decode_root v = Some root"
    using decode_normal_root [of v] decode_encode_root by simp
  then show ?thesis
    using assms(1) v(1) by (simp add: file_root_def Unmarshal_def)
qed


text \<open>The sample configuration that comes with the program, as it is written.\<close>

definition example_text :: string where
  "example_text = ''{
  \"global\": {
    \"log_level\": 5,
    \"stale_client_sweep_interval_seconds\": 300
  },
  \"interfaces\": {
    \"lan\": {
      \"ifname\": \"eth1\",
      \"arpproxy_routing\": true
    },
    \"wan\": {
      \"ifname\": \"eth0\",
      \"master\": true,
      \"arpproxy_routing\": true
    }
  }
}''"

definition example_root :: jsonRoot where
  "example_root =
     \<lparr>jr_Global = Some \<lparr>jg_LogLevel = Some 5, jg_StaleClientSweepIntervalSeconds = Some 300\<rparr>,
      jr_Interfaces =
        [(''lan'', \<lparr>ji_Ifname = Some ''eth1'', ji_Master = None, ji_ArpproxyRouting = Some True\<rparr>),
         (''wan'', \<lparr>ji_Ifname = Some ''eth0'', ji_Master = Some True, ji_ArpproxyRouting = Some True\<rparr>)]\<rparr>"

lemma example_holds: "holds_config example_text example_root"
  by code_simp

definition example_env :: env where
  "example_env = quiet_env\<lparr>ans_readFile := \<lambda>h p. Inr (bytes_of example_text),
     ans_linkByName := \<lambda>h n. Inr \<lparr>la_Name = n, la_Index = 7, la_RawFlags = IFF_RUNNING\<rparr>\<rparr>"


section \<open>A file that is rejected\<close>

text \<open>C31: Exactly which files are rejected, and what a reload then leaves: a file is rejected if and only if
  its text is not JSON or a known member, however deep and however often given, has a value that is
  neither \<open>null\<close> nor of its type (an integer in decimal that fits 64 bits, a string, a boolean, an
  object); one such value anywhere makes the reload drop every interface and close every socket.\<close>
theorem Reload_rejected:
  assumes "state_ok s" and "ans_readFile E (trace s) (ConfigFile cfg) = Inr dat"
    and "t = Reload E (Unmarshal order) cfg s"
  shows "((\<exists>e. Unmarshal order dat = Inl e) \<longleftrightarrow>
      (case parse_json (text_of dat) of None \<Rightarrow> True | Some v \<Rightarrow> ill_root v)) \<and>
    ((case parse_json (text_of dat) of None \<Rightarrow> True | Some v \<Rightarrow> ill_root v) \<longrightarrow>
      interfaces t = [] \<and> (\<forall>r. dhcp (heap t r) = []))"
proof -
  have "file_root E (Unmarshal order) cfg s = None" if "Unmarshal order dat = Inl e" for e
    using assms(2) that by (simp add: file_root_def)
  then have "interfaces t = [] \<and> (\<forall>r. dhcp (heap t r) = [])" if "Unmarshal order dat = Inl e" for e
    using unreadable_drops_all [OF assms(1)] that unfolding assms(3) by metis
  then show ?thesis
    unfolding Unmarshal_error [of order dat, symmetric] by blast
qed

lemma Reload_rejected_witness:
  "interfaces (Reload (quiet_env\<lparr>ans_readFile := \<lambda>h p. Inr
       (bytes_of ''{\"interfaces\":{\"lan\":{\"ifname\":\"eth1\"},\"wan\":{\"ifname\":\"eth0\",\"master\":\"yes\"}}}'')\<rparr>)
     (Unmarshal rev) sample_cfg sample_state) = []"
proof -
  let ?text = "''{\"interfaces\":{\"lan\":{\"ifname\":\"eth1\"},\"wan\":{\"ifname\":\"eth0\",\"master\":\"yes\"}}}''"
  have "(case parse_json ?text of None \<Rightarrow> True | Some v \<Rightarrow> ill_root v)"
    by code_simp
  then show ?thesis
    using Reload_rejected [OF sample_state_ok _ refl, of "quiet_env\<lparr>ans_readFile := \<lambda>h p. Inr (bytes_of ?text)\<rparr>"
        sample_cfg "bytes_of ?text" rev]
    by simp
qed

section \<open>What does not matter\<close>

text \<open>C33: Only the known members of a file count: two texts whose values agree after dropping unknown members
  and ignoring the case of the names of known ones (at the top level, in the global settings and in
  each interface) are decoded alike, errors included.\<close>
theorem Unmarshal_known_members:
  assumes "parse_json text = Some v" and "parse_json text' = Some v'" and "normal_root v = normal_root v'"
  shows "Unmarshal order (bytes_of text) = Unmarshal order (bytes_of text')"
  using assms decode_normal_root [of v] decode_normal_root [of v'] by (simp add: Unmarshal_def)

lemma Unmarshal_known_members_witness:
  "Unmarshal rev (bytes_of ''{\"comment\":[1,{}],\"INTERFACES\":{\"lan\":{\"ifName\":\"eth1\",\"mtu\":null}}}'') =
   Unmarshal rev (bytes_of ''{ \"interfaces\": {\"lan\": {\"ifname\": \"eth1\"}} }'')"
proof -
  let ?v = "JObj [(''comment'', JArr [JNum ''1'', JObj []]),
      (''INTERFACES'', JObj [(''lan'', JObj [(''ifName'', JStr ''eth1''), (''mtu'', JNull)])])]"
  let ?w = "JObj [(''interfaces'', JObj [(''lan'', JObj [(''ifname'', JStr ''eth1'')])])]"
  have "parse_json ''{\"comment\":[1,{}],\"INTERFACES\":{\"lan\":{\"ifName\":\"eth1\",\"mtu\":null}}}'' = Some ?v"
    "parse_json ''{ \"interfaces\": {\"lan\": {\"ifname\": \"eth1\"}} }'' = Some ?w"
    "normal_root ?v = normal_root ?w"
    by code_simp+
  then show ?thesis
    by (rule Unmarshal_known_members)
qed

end
